theory Spec2Isabelle
  imports Main "HOL-Library.Word" "HOL-Library.AList"
begin

text \<open>
  A model of two parts of the moltcook.io server: \<open>DatabaseStorage.getCombinedActivity\<close>,
  which merges recent posts, trades and audit logs into one feed, and the wallet codec
  (\<open>encrypt\<close>, \<open>decrypt\<close>, \<open>generateWalletKeypair\<close>, \<open>isValidSolanaAddress\<close>),
  followed by the properties proved of them.
\<close>

section \<open>JavaScript values\<close>

text \<open>
  A JavaScript string is a sequence of 16-bit code units; a Buffer is a sequence of
  bytes. String literals of the source are written with \<open>js\<close>, which maps each
  (ASCII) character of the literal to its code unit.
\<close>

type_synonym byte = "8 word"
type_synonym jsstring = "16 word list"

definition js :: "string \<Rightarrow> jsstring" where
  "js s = map (\<lambda>c. word_of_nat (of_char c)) s"

text \<open>
  Number-to-string conversion of a template literal, for the integers the database
  hands out as identifiers: decimal digits, with a leading minus sign below zero.
\<close>

definition digitChar :: "nat \<Rightarrow> 16 word" where
  "digitChar d = word_of_nat (48 + d)"

fun digitsOf :: "nat \<Rightarrow> jsstring" where
  "digitsOf n = (if n < 10 then [digitChar n] else digitsOf (n div 10) @ [digitChar (n mod 10)])"

declare digitsOf.simps [simp del]

definition numberToString :: "int \<Rightarrow> jsstring" where
  "numberToString i = (if i < 0 then 45 # digitsOf (nat (- i)) else digitsOf (nat i))"

section \<open>The storage layer: rows and tables\<close>

text \<open>
  Rows carry the columns that \<open>getCombinedActivity\<close> reads. Timestamps are milliseconds
  since the epoch (\<open>Date.getTime()\<close>); a nullable column is an \<open>option\<close>. The details
  payload of an audit log is opaque JSON, kept as its text.
\<close>

type_synonym json = jsstring

record BotPost =
  p_id :: int
  p_botId :: int
  p_content :: "jsstring option"
  p_tweetId :: "jsstring option"
  p_postType :: jsstring
  p_status :: jsstring
  p_createdAt :: "int option"

record Trade =
  t_id :: int
  t_botId :: int
  t_tokenMint :: jsstring
  t_tokenSymbol :: "jsstring option"
  t_amountSol :: "jsstring option"
  t_amountTokens :: "jsstring option"
  t_txHash :: "jsstring option"
  t_status :: jsstring
  t_tradeType :: jsstring
  t_createdAt :: "int option"

record AuditLog =
  l_id :: int
  l_botId :: "int option"
  l_userId :: "int option"
  l_action :: jsstring
  l_details :: json
  l_createdAt :: "int option"

record Bot =
  b_id :: int
  b_botName :: jsstring
  b_userId :: int

record User =
  u_id :: int
  u_username :: jsstring

record BotXAccount =
  x_botId :: int
  x_xProfileImageUrl :: "jsstring option"

text \<open>
  The database. The three activity tables are held in the order in which
  \<open>select().from(t).orderBy(desc(t.createdAt))\<close> returns their rows, so that
  \<open>.limit(n)\<close> is \<open>take n\<close>.
\<close>

record db =
  botPosts :: "BotPost list"
  trades :: "Trade list"
  auditLogs :: "AuditLog list"
  bots :: "Bot list"
  users :: "User list"
  botXAccounts :: "BotXAccount list"

datatype details =
    TweetDetails "jsstring option" "jsstring option" jsstring jsstring
  | TradeDetails jsstring "jsstring option" "jsstring option" "jsstring option"
      "jsstring option" jsstring jsstring
  | LogDetails json

record CombinedActivityItem =
  item_id :: jsstring
  item_type :: jsstring
  action :: jsstring
  botId :: int
  botName :: jsstring
  ownerUsername :: jsstring
  botProfileImageUrl :: "jsstring option"
  details :: details
  createdAt :: "int option"

section \<open>getCombinedActivity\<close>

text \<open>\<open>Array.from(new Set(xs))\<close>: the distinct elements, each at its first occurrence.\<close>

definition uniq :: "'a list \<Rightarrow> 'a list" where
  "uniq xs = rev (remdups (rev xs))"

text \<open>\<open>.filter((id): id is number => id !== null)\<close>\<close>

definition nonNull :: "'a option list \<Rightarrow> 'a list" where
  "nonNull xs = concat (map (\<lambda>x. case x of None \<Rightarrow> [] | Some v \<Rightarrow> [v]) xs)"

definition collectBotIds :: "BotPost list \<Rightarrow> Trade list \<Rightarrow> AuditLog list \<Rightarrow> int list" where
  "collectBotIds recentPosts recentTrades recentLogs =
     uniq (map p_botId recentPosts @ map t_botId recentTrades @ nonNull (map l_botId recentLogs))"

text \<open>
  The lookup objects \<open>botMap\<close>, \<open>userMap\<close> and \<open>pfpMap\<close> are filled by assignment in
  a loop over the selected rows: a later row overwrites an earlier one of the same key.
\<close>

definition buildBotMap :: "Bot list \<Rightarrow> (int \<times> (jsstring \<times> int)) list" where
  "buildBotMap allBotsList =
     fold (\<lambda>b m. AList.update (b_id b) (b_botName b, b_userId b) m) allBotsList []"

definition buildUserMap :: "User list \<Rightarrow> (int \<times> jsstring) list" where
  "buildUserMap allUsers = fold (\<lambda>u m. AList.update (u_id u) (u_username u) m) allUsers []"

definition buildPfpMap :: "BotXAccount list \<Rightarrow> (int \<times> jsstring option) list" where
  "buildPfpMap xAccounts =
     fold (\<lambda>x m. AList.update (x_botId x) (x_xProfileImageUrl x) m) xAccounts []"

text \<open>\<open>s || "..."\<close> on a string that may be undefined: the empty string is falsy too.\<close>

definition orString :: "jsstring option \<Rightarrow> jsstring \<Rightarrow> jsstring" where
  "orString v d = (case v of None \<Rightarrow> d | Some s \<Rightarrow> if s = [] then d else s)"

text \<open>\<open>pfpMap[k] || null\<close>\<close>

definition orNull :: "jsstring option option \<Rightarrow> jsstring option" where
  "orNull v = (case v of Some (Some s) \<Rightarrow> if s = [] then None else Some s | _ \<Rightarrow> None)"

definition postItem ::
  "(int \<times> (jsstring \<times> int)) list \<Rightarrow> (int \<times> jsstring) list \<Rightarrow> (int \<times> jsstring option) list
    \<Rightarrow> BotPost \<Rightarrow> CombinedActivityItem" where
  "postItem botMap userMap pfpMap post =
     (let bot = map_of botMap (p_botId post) in
      \<lparr> item_id = js ''tweet-'' @ numberToString (p_id post),
        item_type = js ''tweet'',
        action = (if p_postType post = js ''reply'' then js ''reply_posted'' else js ''tweet_posted''),
        botId = p_botId post,
        botName = orString (map_option fst bot) (js ''Unknown''),
        ownerUsername =
          (case bot of
             Some b \<Rightarrow> orString (map_of userMap (snd b)) (js ''Unknown'')
           | None \<Rightarrow> js ''Unknown''),
        botProfileImageUrl = orNull (map_of pfpMap (p_botId post)),
        details = TweetDetails (map_option (take 120) (p_content post)) (p_tweetId post)
                    (p_postType post) (p_status post),
        createdAt = p_createdAt post \<rparr>)"

definition tradeItem ::
  "(int \<times> (jsstring \<times> int)) list \<Rightarrow> (int \<times> jsstring) list \<Rightarrow> (int \<times> jsstring option) list
    \<Rightarrow> Trade \<Rightarrow> CombinedActivityItem" where
  "tradeItem botMap userMap pfpMap tr =
     (let bot = map_of botMap (t_botId tr) in
      \<lparr> item_id = js ''trade-'' @ numberToString (t_id tr),
        item_type = js ''trade'',
        action = (if t_tradeType tr = js ''buy'' then js ''token_bought'' else js ''token_sold''),
        botId = t_botId tr,
        botName = orString (map_option fst bot) (js ''Unknown''),
        ownerUsername =
          (case bot of
             Some b \<Rightarrow> orString (map_of userMap (snd b)) (js ''Unknown'')
           | None \<Rightarrow> js ''Unknown''),
        botProfileImageUrl = orNull (map_of pfpMap (t_botId tr)),
        details = TradeDetails (t_tokenMint tr) (t_tokenSymbol tr) (t_amountSol tr)
                    (t_amountTokens tr) (t_txHash tr) (t_status tr) (t_tradeType tr),
        createdAt = t_createdAt tr \<rparr>)"

text \<open>
  \<open>log.botId ? ... : ...\<close> tests truthiness: a null bot id and the bot id 0 both take
  the second branch. The same holds for \<open>log.userId\<close>.
\<close>

definition truthyId :: "int option \<Rightarrow> int option" where
  "truthyId v = (case v of Some n \<Rightarrow> if n = 0 then None else Some n | None \<Rightarrow> None)"

definition logItem ::
  "(int \<times> (jsstring \<times> int)) list \<Rightarrow> (int \<times> jsstring) list \<Rightarrow> (int \<times> jsstring option) list
    \<Rightarrow> AuditLog \<Rightarrow> CombinedActivityItem" where
  "logItem botMap userMap pfpMap lg =
     (let bot = (case truthyId (l_botId lg) of Some n \<Rightarrow> map_of botMap n | None \<Rightarrow> None) in
      \<lparr> item_id = js ''log-'' @ numberToString (l_id lg),
        item_type = js ''system'',
        action = l_action lg,
        botId = (case truthyId (l_botId lg) of Some n \<Rightarrow> n | None \<Rightarrow> 0),
        botName = orString (map_option fst bot) (js ''System''),
        ownerUsername =
          (case bot of
             Some b \<Rightarrow> orString (map_of userMap (snd b)) (js ''Unknown'')
           | None \<Rightarrow>
               (case truthyId (l_userId lg) of
                  Some u \<Rightarrow> orString (map_of userMap u) (js ''Unknown'')
                | None \<Rightarrow> js ''System'')),
        botProfileImageUrl =
          (case truthyId (l_botId lg) of Some n \<Rightarrow> orNull (map_of pfpMap n) | None \<Rightarrow> None),
        details = LogDetails (l_details lg),
        createdAt = l_createdAt lg \<rparr>)"

text \<open>The three \<open>for ... items.push(...)\<close> loops, each appending to the array built so far.\<close>

definition pushAll :: "('r \<Rightarrow> CombinedActivityItem) \<Rightarrow> 'r list \<Rightarrow> CombinedActivityItem list
    \<Rightarrow> CombinedActivityItem list" where
  "pushAll f rows items = fold (\<lambda>r acc. acc @ [f r]) rows items"

text \<open>
  The items array as it stands after the three loops, before it is sorted and sliced,
  on the path where the early return is not taken.
\<close>

definition normalizedItems :: "db \<Rightarrow> nat \<Rightarrow> CombinedActivityItem list" where
  "normalizedItems d limit =
     (let recentPosts = take limit (botPosts d);
          recentTrades = take limit (trades d);
          recentLogs = take limit (auditLogs d);
          allBotIds = collectBotIds recentPosts recentTrades recentLogs;
          allBotsList = filter (\<lambda>b. b_id b \<in> set allBotIds) (bots d);
          botMap = buildBotMap allBotsList;
          userIds = uniq (map (\<lambda>e. snd (snd e)) botMap);
          allUsers = (if userIds \<noteq> [] then filter (\<lambda>u. u_id u \<in> set userIds) (users d) else []);
          userMap = buildUserMap allUsers;
          xAccounts = (if allBotIds \<noteq> []
                       then filter (\<lambda>x. x_botId x \<in> set allBotIds) (botXAccounts d) else []);
          pfpMap = buildPfpMap xAccounts
      in pushAll (logItem botMap userMap pfpMap) recentLogs
           (pushAll (tradeItem botMap userMap pfpMap) recentTrades
              (pushAll (postItem botMap userMap pfpMap) recentPosts [])))"

text \<open>
  The comparator \<open>(a, b) => tb - ta\<close>, where a missing timestamp counts as 0:
  \<open>Array.prototype.sort\<close> is stable, so the result is the stable sort by descending time.
\<close>

definition timeOf :: "CombinedActivityItem \<Rightarrow> int" where
  "timeOf a = (case createdAt a of Some t \<Rightarrow> t | None \<Rightarrow> 0)"

definition sortItems :: "CombinedActivityItem list \<Rightarrow> CombinedActivityItem list" where
  "sortItems items = sort_key (\<lambda>a. - timeOf a) items"

definition getCombinedActivity :: "db \<Rightarrow> nat \<Rightarrow> CombinedActivityItem list" where
  "getCombinedActivity d limit =
     (if collectBotIds (take limit (botPosts d)) (take limit (trades d))
           (take limit (auditLogs d)) = []
      then []
      else take limit (sortItems (normalizedItems d limit)))"

text \<open>The declared default, \<open>limit = 30\<close>.\<close>

definition getCombinedActivityDefault :: "db \<Rightarrow> CombinedActivityItem list" where
  "getCombinedActivityDefault d = getCombinedActivity d 30"

section \<open>Text encodings used by the secret codec\<close>

text \<open>
  The codec leaves the conversion between strings and bytes to the Node.js runtime
  (hexadecimal and UTF-8) and to the \<open>bs58\<close> package (base58). What these do is
  written out here as functions.
\<close>

subsection \<open>Hexadecimal\<close>

text \<open>\<open>buf.toString("hex")\<close>: two lower-case digits per byte.\<close>

definition hexDigit :: "nat \<Rightarrow> 16 word" where
  "hexDigit n = word_of_nat (if n < 10 then 48 + n else 87 + n)"

definition hexEncode :: "byte list \<Rightarrow> jsstring" where
  "hexEncode bs = concat (map (\<lambda>b. [hexDigit (unat b div 16), hexDigit (unat b mod 16)]) bs)"

definition hexVal :: "16 word \<Rightarrow> nat option" where
  "hexVal c =
     (let n = unat c in
      if 48 \<le> n \<and> n \<le> 57 then Some (n - 48)
      else if 97 \<le> n \<and> n \<le> 102 then Some (n - 87)
      else if 65 \<le> n \<and> n \<le> 70 then Some (n - 55)
      else None)"

text \<open>
  \<open>Buffer.from(s, "hex")\<close>: pairs of digits are decoded until the first pair that is not
  hexadecimal; what follows it, and a trailing single digit, are dropped.
\<close>

fun hexDecode :: "jsstring \<Rightarrow> byte list" where
  "hexDecode (h # l # rest) =
     (case (hexVal h, hexVal l) of
        (Some a, Some b) \<Rightarrow> word_of_nat (16 * a + b) # hexDecode rest
      | _ \<Rightarrow> [])"
| "hexDecode _ = []"

subsection \<open>UTF-8\<close>

text \<open>
  Encoding a string as UTF-8 (\<open>cipher.update(text, "utf8", ...)\<close>,
  \<open>hash.update(key)\<close>): a surrogate pair is one code point of four bytes; a surrogate
  without its partner is replaced by U+FFFD.
\<close>

definition encodeCodePoint :: "nat \<Rightarrow> byte list" where
  "encodeCodePoint c =
     (if c < 128 then [word_of_nat c]
      else if c < 2048 then [word_of_nat (192 + c div 64), word_of_nat (128 + c mod 64)]
      else if c < 65536 then
        [word_of_nat (224 + c div 4096), word_of_nat (128 + c div 64 mod 64),
         word_of_nat (128 + c mod 64)]
      else
        [word_of_nat (240 + c div 262144), word_of_nat (128 + c div 4096 mod 64),
         word_of_nat (128 + c div 64 mod 64), word_of_nat (128 + c mod 64)])"

definition isHighSurrogate :: "16 word \<Rightarrow> bool" where
  "isHighSurrogate u = (55296 \<le> unat u \<and> unat u \<le> 56319)"

definition isLowSurrogate :: "16 word \<Rightarrow> bool" where
  "isLowSurrogate u = (56320 \<le> unat u \<and> unat u \<le> 57343)"

fun utf8Encode :: "jsstring \<Rightarrow> byte list" where
  "utf8Encode [] = []"
| "utf8Encode [u] =
     (if isHighSurrogate u \<or> isLowSurrogate u then encodeCodePoint 65533
      else encodeCodePoint (unat u))"
| "utf8Encode (u # v # rest) =
     (if isHighSurrogate u \<and> isLowSurrogate v
      then encodeCodePoint (65536 + (unat u - 55296) * 1024 + (unat v - 56320)) @ utf8Encode rest
      else if isHighSurrogate u \<or> isLowSurrogate u
      then encodeCodePoint 65533 @ utf8Encode (v # rest)
      else encodeCodePoint (unat u) @ utf8Encode (v # rest))"

text \<open>
  Decoding UTF-8 into a string (\<open>decipher.update(..., "hex", "utf8")\<close> followed by
  \<open>decipher.final("utf8")\<close>): the decoder is either between code points or inside
  one, holding the bits read so far, the number of continuation bytes still to come and
  the range allowed for the next byte. Every malformed sequence yields U+FFFD, and a
  byte that breaks off a sequence is read again as the start of the next one.
\<close>

datatype utf8State = Idle | Pending nat nat nat nat

definition utf8Lead :: "nat \<Rightarrow> nat list \<times> utf8State" where
  "utf8Lead b =
     (if b < 128 then ([b], Idle)
      else if 194 \<le> b \<and> b \<le> 223 then ([], Pending (b - 192) 1 128 191)
      else if 224 \<le> b \<and> b \<le> 239 then
        ([], Pending (b - 224) 2 (if b = 224 then 160 else 128) (if b = 237 then 159 else 191))
      else if 240 \<le> b \<and> b \<le> 244 then
        ([], Pending (b - 240) 3 (if b = 240 then 144 else 128) (if b = 244 then 143 else 191))
      else ([65533], Idle))"

fun utf8Step :: "utf8State \<Rightarrow> nat \<Rightarrow> nat list \<times> utf8State" where
  "utf8Step Idle b = utf8Lead b"
| "utf8Step (Pending cp need lo hi) b =
     (if lo \<le> b \<and> b \<le> hi then
        (if need \<le> 1 then ([cp * 64 + (b - 128)], Idle)
         else ([], Pending (cp * 64 + (b - 128)) (need - 1) 128 191))
      else (65533 # fst (utf8Lead b), snd (utf8Lead b)))"

fun utf8Run :: "utf8State \<Rightarrow> byte list \<Rightarrow> nat list" where
  "utf8Run st [] = (case st of Idle \<Rightarrow> [] | Pending _ _ _ _ \<Rightarrow> [65533])"
| "utf8Run st (b # bs) = fst (utf8Step st (unat b)) @ utf8Run (snd (utf8Step st (unat b))) bs"

text \<open>A code point as UTF-16 code units.\<close>

definition codeUnits :: "nat \<Rightarrow> jsstring" where
  "codeUnits c =
     (if c < 65536 then [word_of_nat c]
      else [word_of_nat (55296 + (c - 65536) div 1024), word_of_nat (56320 + (c - 65536) mod 1024)])"

definition utf8Decode :: "byte list \<Rightarrow> jsstring" where
  "utf8Decode bs = concat (map codeUnits (utf8Run Idle bs))"

text \<open>A Unicode scalar value: a code point up to U+10FFFF that is not a surrogate.\<close>

definition scalar :: "nat \<Rightarrow> bool" where
  "scalar c = (c < 1114112 \<and> \<not> (55296 \<le> c \<and> c \<le> 57343))"

text \<open>A string is well formed when every surrogate code unit is part of a pair.\<close>

fun wellFormed :: "jsstring \<Rightarrow> bool" where
  "wellFormed [] = True"
| "wellFormed [u] = (\<not> isHighSurrogate u \<and> \<not> isLowSurrogate u)"
| "wellFormed (u # v # rest) =
     (if isHighSurrogate u then isLowSurrogate v \<and> wellFormed rest
      else \<not> isLowSurrogate u \<and> wellFormed (v # rest))"

subsection \<open>Base58\<close>

text \<open>
  The codec of the \<open>bs58\<close> package: the bytes are read as one big-endian number and
  written in base 58 over the Bitcoin alphabet, each leading zero byte as the digit
  \<open>1\<close>. Decoding fails on a character outside the alphabet.
\<close>

definition b58Alphabet :: jsstring where
  "b58Alphabet = js ''123456789ABCDEFGHJKLMNPQRSTUVWXYZabcdefghijkmnopqrstuvwxyz''"

fun indexOf :: "'a \<Rightarrow> 'a list \<Rightarrow> nat option" where
  "indexOf x [] = None"
| "indexOf x (y # ys) = (if x = y then Some 0 else map_option Suc (indexOf x ys))"

definition digitsToNat :: "nat \<Rightarrow> nat list \<Rightarrow> nat" where
  "digitsToNat base ds = foldl (\<lambda>acc d. acc * base + d) 0 ds"

function natToDigits :: "nat \<Rightarrow> nat \<Rightarrow> nat list" where
  "natToDigits base n =
     (if n = 0 \<or> base < 2 then [] else natToDigits base (n div base) @ [n mod base])"
  by pat_completeness auto
termination
  by (relation "measure snd") auto

declare natToDigits.simps [simp del]

definition bs58Encode :: "byte list \<Rightarrow> jsstring" where
  "bs58Encode bs =
     replicate (length (takeWhile (\<lambda>b. b = 0) bs)) (b58Alphabet ! 0) @
     map (\<lambda>d. b58Alphabet ! d) (natToDigits 58 (digitsToNat 256 (map unat bs)))"

definition bs58Decode :: "jsstring \<Rightarrow> byte list option" where
  "bs58Decode s =
     (case those (map (\<lambda>c. indexOf c b58Alphabet) s) of
        None \<Rightarrow> None
      | Some ds \<Rightarrow>
          Some (replicate (length (takeWhile (\<lambda>d. d = 0) ds)) 0 @
                map word_of_nat (natToDigits 256 (digitsToNat 58 ds))))"

section \<open>The secret codec\<close>

text \<open>
  The process environment holds the two variables the codec reads. The primitives of
  Node's \<open>crypto\<close> module are parameters: the SHA-256 digest, and AES-256-GCM as one
  function that seals a plaintext under a key and an initialisation vector into a
  ciphertext and an authentication tag, and one that opens a ciphertext or fails.
\<close>

record env =
  SESSION_SECRET :: "jsstring option"
  NODE_ENV :: "jsstring option"

datatype decipherFailure = UnableToAuthenticate | InvalidParameter

record nodeCrypto =
  sha256Digest :: "byte list \<Rightarrow> byte list"
  gcmSeal :: "byte list \<Rightarrow> byte list \<Rightarrow> byte list \<Rightarrow> byte list \<times> byte list"
  gcmOpen :: "byte list \<Rightarrow> byte list \<Rightarrow> byte list \<Rightarrow> byte list \<Rightarrow> decipherFailure + byte list"

text \<open>
  The errors the codec can end with: the two it throws itself, the failure of tag
  verification in \<open>decipher.final\<close>, and any other rejection by the crypto module (an
  initialisation vector, tag or input it does not accept).
\<close>

datatype error = ConfigurationError | FormatError | AuthenticationError | CryptoError

text \<open>\<open>!key\<close> holds for an undefined variable and for the empty string.\<close>

definition getEncryptionKey :: "nodeCrypto \<Rightarrow> env \<Rightarrow> error + byte list" where
  "getEncryptionKey lib e =
     (case SESSION_SECRET e of
        Some key \<Rightarrow>
          if key = [] then
            (if NODE_ENV e = Some (js ''production'') then Inl ConfigurationError
             else Inr (sha256Digest lib (utf8Encode (js ''moltcook-dev-only-key''))))
          else Inr (sha256Digest lib (utf8Encode key))
      | None \<Rightarrow>
          if NODE_ENV e = Some (js ''production'') then Inl ConfigurationError
          else Inr (sha256Digest lib (utf8Encode (js ''moltcook-dev-only-key''))))"

text \<open>\<open>encrypt\<close>; the argument \<open>iv\<close> is the outcome of \<open>randomBytes(16)\<close>.\<close>

definition encrypt :: "nodeCrypto \<Rightarrow> env \<Rightarrow> byte list \<Rightarrow> jsstring \<Rightarrow> error + jsstring" where
  "encrypt lib e iv text =
     (case getEncryptionKey lib e of
        Inl err \<Rightarrow> Inl err
      | Inr key \<Rightarrow>
          (let sealed = gcmSeal lib key iv (utf8Encode text);
               encrypted = hexEncode (fst sealed);
               authTag = hexEncode (snd sealed)
           in Inr (hexEncode iv @ js '':'' @ authTag @ js '':'' @ encrypted)))"

text \<open>\<open>s.split(":")\<close>: the segments between the separators; never an empty array.\<close>

fun splitOn :: "'a \<Rightarrow> 'a list \<Rightarrow> 'a list list" where
  "splitOn sep [] = [[]]"
| "splitOn sep (c # cs) =
     (if c = sep then [] # splitOn sep cs
      else (case splitOn sep cs of p # ps \<Rightarrow> (c # p) # ps | [] \<Rightarrow> [[c]]))"

text \<open>
  \<open>decrypt\<close>. The ciphertext segment goes to \<open>decipher.update\<close> as a hex string, which
  rejects a string of odd length.
\<close>

definition decrypt :: "nodeCrypto \<Rightarrow> env \<Rightarrow> jsstring \<Rightarrow> error + jsstring" where
  "decrypt lib e encryptedText =
     (case getEncryptionKey lib e of
        Inl err \<Rightarrow> Inl err
      | Inr key \<Rightarrow>
          (case splitOn 58 encryptedText of
             [p0, p1, p2] \<Rightarrow>
               (let iv = hexDecode p0; authTag = hexDecode p1; encrypted = p2 in
                if odd (length encrypted) then Inl CryptoError
                else
                  (case gcmOpen lib key iv authTag (hexDecode encrypted) of
                     Inl UnableToAuthenticate \<Rightarrow> Inl AuthenticationError
                   | Inl InvalidParameter \<Rightarrow> Inl CryptoError
                   | Inr decrypted \<Rightarrow> Inr (utf8Decode decrypted)))
           | _ \<Rightarrow> Inl FormatError))"

text \<open>\<open>decrypt(encrypt(text))\<close>, with the same environment in effect for both calls.\<close>

definition decryptEncrypted :: "nodeCrypto \<Rightarrow> env \<Rightarrow> byte list \<Rightarrow> jsstring \<Rightarrow> error + jsstring" where
  "decryptEncrypted lib e iv text =
     (case encrypt lib e iv text of Inl err \<Rightarrow> Inl err | Inr blob \<Rightarrow> decrypt lib e blob)"

text \<open>
  \<open>generateWalletKeypair\<close>; the argument is the key pair drawn by \<open>Keypair.generate()\<close>:
  a public key of 32 bytes and a secret key of 64 bytes.
\<close>

record keypair =
  kp_publicKey :: "byte list"
  kp_secretKey :: "byte list"

record walletKeypair =
  publicKey :: jsstring
  privateKey :: jsstring

definition generateWalletKeypair :: "keypair \<Rightarrow> walletKeypair" where
  "generateWalletKeypair kp =
     \<lparr> publicKey = bs58Encode (kp_publicKey kp), privateKey = bs58Encode (kp_secretKey kp) \<rparr>"

text \<open>\<open>isValidSolanaAddress\<close>: a failed decoding is caught and answered with false.\<close>

definition isValidSolanaAddress :: "jsstring \<Rightarrow> bool" where
  "isValidSolanaAddress address =
     (case bs58Decode address of Some decoded \<Rightarrow> length decoded = 32 | None \<Rightarrow> False)"

section \<open>Sample databases\<close>

text \<open>
  Two posts of a known bot (one without a timestamp), one trade of a bot that has no
  row in \<open>bots\<close>, and one system log without a bot.
\<close>

definition demoDb :: db where
  "demoDb =
     \<lparr> botPosts =
         [\<lparr> p_id = 1, p_botId = 1, p_content = Some (js ''gm''), p_tweetId = Some (js ''900''),
            p_postType = js ''original'', p_status = js ''posted'', p_createdAt = Some 300 \<rparr>,
          \<lparr> p_id = 2, p_botId = 1, p_content = None, p_tweetId = None,
            p_postType = js ''reply'', p_status = js ''pending'', p_createdAt = None \<rparr>],
       trades =
         [\<lparr> t_id = 1, t_botId = 9, t_tokenMint = js ''So11'', t_tokenSymbol = Some (js ''SOL''),
            t_amountSol = Some (js ''1.5''), t_amountTokens = None, t_txHash = None,
            t_status = js ''completed'', t_tradeType = js ''buy'', t_createdAt = Some 200 \<rparr>],
       auditLogs =
         [\<lparr> l_id = 1, l_botId = None, l_userId = None, l_action = js ''startup'',
            l_details = js ''{}'', l_createdAt = Some 100 \<rparr>],
       bots = [\<lparr> b_id = 1, b_botName = js ''alpha'', b_userId = 5 \<rparr>],
       users = [\<lparr> u_id = 5, u_username = js ''ann'' \<rparr>],
       botXAccounts = [\<lparr> x_botId = 1, x_xProfileImageUrl = None \<rparr>] \<rparr>"

text \<open>A database whose only activity is one system log without a bot.\<close>

definition systemOnlyDb :: db where
  "systemOnlyDb =
     \<lparr> botPosts = [], trades = [],
       auditLogs =
         [\<lparr> l_id = 7, l_botId = None, l_userId = None, l_action = js ''startup'',
            l_details = js ''{}'', l_createdAt = Some 100 \<rparr>],
       bots = [], users = [], botXAccounts = [] \<rparr>"

text \<open>
  A post of a bot whose owner has no row in \<open>users\<close>, and an audit log that names a
  bot and an acting user, neither of which has a row.
\<close>

definition orphanDb :: db where
  "orphanDb =
     \<lparr> botPosts =
         [\<lparr> p_id = 4, p_botId = 2, p_content = Some (js ''hello''), p_tweetId = None,
            p_postType = js ''original'', p_status = js ''posted'', p_createdAt = Some 50 \<rparr>],
       trades = [],
       auditLogs =
         [\<lparr> l_id = 5, l_botId = Some 8, l_userId = Some 6, l_action = js ''bot_created'',
            l_details = js ''{}'', l_createdAt = Some 40 \<rparr>],
       bots = [\<lparr> b_id = 2, b_botName = js ''beta'', b_userId = 6 \<rparr>],
       users = [], botXAccounts = [] \<rparr>"

section \<open>Sample environments and a stand-in for the crypto module\<close>

text \<open>
  Three environments: no secret outside production, no secret in production, and a
  configured secret in production.
\<close>

definition devEnv :: env where
  "devEnv = \<lparr> SESSION_SECRET = None, NODE_ENV = Some (js ''development'') \<rparr>"

definition prodEnv :: env where
  "prodEnv = \<lparr> SESSION_SECRET = None, NODE_ENV = Some (js ''production'') \<rparr>"

definition secretEnv :: env where
  "secretEnv = \<lparr> SESSION_SECRET = Some (js ''s3cret''), NODE_ENV = Some (js ''production'') \<rparr>"

text \<open>
  A small stand-in for the crypto module, to run the codec on concrete inputs: the
  digest keeps the first two bytes, the cipher adds a pad taken from key and
  initialisation vector to every byte, and the tag is the pad plus the sum of the
  ciphertext. Opening checks the tag before it returns the plaintext.
\<close>

definition demoPad :: "byte list \<Rightarrow> byte list \<Rightarrow> byte" where
  "demoPad key iv = sum_list key + sum_list iv"

definition demoCrypto :: nodeCrypto where
  "demoCrypto =
     \<lparr> sha256Digest = take 2,
       gcmSeal = (\<lambda>key iv plain.
         (map (\<lambda>b. b + demoPad key iv) plain,
          [demoPad key iv + sum_list (map (\<lambda>b. b + demoPad key iv) plain)])),
       gcmOpen = (\<lambda>key iv tag cipher.
         if iv = [] then Inl InvalidParameter
         else if tag = [demoPad key iv + sum_list cipher]
         then Inr (map (\<lambda>b. b - demoPad key iv) cipher)
         else Inl UnableToAuthenticate) \<rparr>"

text \<open>A key pair whose public key is the bytes 1 to 32.\<close>

definition demoKeypair :: keypair where
  "demoKeypair =
     \<lparr> kp_publicKey = [1, 2, 3, 4, 5, 6, 7, 8, 9, 10, 11, 12, 13, 14, 15, 16,
                       17, 18, 19, 20, 21, 22, 23, 24, 25, 26, 27, 28, 29, 30, 31, 32],
       kp_secretKey = [] \<rparr>"

section \<open>Properties of the aggregator\<close>

lemma pushAll_map: "pushAll f rows items = items @ map f rows"
  unfolding pushAll_def by (induction rows arbitrary: items) simp_all

subsection \<open>Identifiers are rendered injectively\<close>

lemma digitChar_inj: "a < 10 \<Longrightarrow> b < 10 \<Longrightarrow> digitChar a = digitChar b \<Longrightarrow> a = b"
  unfolding digitChar_def
  by (simp add: word_of_nat_eq_iff take_bit_nat_eq_self)

lemma digitsOf_nonempty: "digitsOf n \<noteq> []" "[] \<noteq> digitsOf n"
  by (subst digitsOf.simps, simp)+

lemma unat_digitChar: "n < 10 \<Longrightarrow> unat (digitChar n) = 48 + n"
  by (simp only: digitChar_def unat_of_nat) simp

lemma digitsOf_inj: "digitsOf m = digitsOf n \<Longrightarrow> m = n"
proof (induction m arbitrary: n rule: digitsOf.induct)
  case (1 m)
  show ?case
  proof (cases "m < 10")
    case small_m: True
    show ?thesis
    proof (cases "n < 10")
      case True
      with small_m "1.prems" show ?thesis
        by (simp add: digitsOf.simps [of m] digitsOf.simps [of n] digitChar_inj)
    next
      case False
      with small_m "1.prems" show ?thesis
        by (simp add: digitsOf.simps [of m] digitsOf.simps [of n] digitsOf_nonempty)
    qed
  next
    case big_m: False
    show ?thesis
    proof (cases "n < 10")
      case True
      with big_m "1.prems" show ?thesis
        by (simp add: digitsOf.simps [of m] digitsOf.simps [of n] digitsOf_nonempty)
    next
      case False
      with big_m "1.prems"
      have pre: "digitsOf (m div 10) = digitsOf (n div 10)"
        and lst: "digitChar (m mod 10) = digitChar (n mod 10)"
        by (simp_all add: digitsOf.simps [of m] digitsOf.simps [of n])
      from "1.IH" [OF big_m pre] have "m div 10 = n div 10" .
      moreover from lst have "m mod 10 = n mod 10"
        by (intro digitChar_inj) simp_all
      ultimately show ?thesis
        by (metis div_mult_mod_eq)
    qed
  qed
qed

lemma digitsOf_hd: "hd (digitsOf n) \<noteq> 45"
proof (induction n rule: digitsOf.induct)
  case (1 n)
  show ?case
  proof (cases "n < 10")
    case True
    have "digitChar n \<noteq> 45"
    proof
      assume "digitChar n = 45"
      then have "unat (digitChar n) = 45" by simp
      with True show False by (simp add: unat_digitChar)
    qed
    with True show ?thesis
      by (simp add: digitsOf.simps [of n])
  next
    case False
    with 1 show ?thesis
      by (simp add: digitsOf.simps [of n] digitsOf_nonempty)
  qed
qed

lemma numberToString_inj: "numberToString i = numberToString j \<Longrightarrow> i = j"
proof -
  assume eq: "numberToString i = numberToString j"
  have neg_pos: "45 # digitsOf a \<noteq> digitsOf b" for a b
  proof
    assume "45 # digitsOf a = digitsOf b"
    then have "hd (digitsOf b) = 45" by (metis list.sel(1))
    with digitsOf_hd show False by blast
  qed
  show ?thesis
  proof (cases "i < 0"; cases "j < 0")
    assume "i < 0" "j < 0"
    with eq have "nat (- i) = nat (- j)"
      by (simp add: numberToString_def digitsOf_inj)
    with \<open>i < 0\<close> \<open>j < 0\<close> show ?thesis by simp
  next
    assume "i < 0" "\<not> j < 0"
    with eq neg_pos show ?thesis by (simp add: numberToString_def)
  next
    assume "\<not> i < 0" "j < 0"
    with eq neg_pos [of "nat (- j)" "nat i"] show ?thesis by (simp add: numberToString_def)
  next
    assume "\<not> i < 0" "\<not> j < 0"
    with eq have "nat i = nat j"
      by (simp add: numberToString_def digitsOf_inj)
    with \<open>\<not> i < 0\<close> \<open>\<not> j < 0\<close> show ?thesis by simp
  qed
qed

lemma collect_empty_iff:
  "collectBotIds ps ts ls = [] \<longleftrightarrow> ps = [] \<and> ts = [] \<and> (\<forall>l \<in> set ls. l_botId l = None)"
proof -
  have nn: "nonNull xs = [] \<longleftrightarrow> (\<forall>x \<in> set xs. x = None)" for xs :: "int option list"
    unfolding nonNull_def by (induction xs) (auto split: option.splits)
  have u: "uniq xs = [] \<longleftrightarrow> xs = []" for xs :: "int list"
    unfolding uniq_def by simp
  show ?thesis
    unfolding collectBotIds_def by (auto simp: u nn)
qed

lemma set_uniq: "set (uniq xs) = set xs"
  unfolding uniq_def by simp

lemma set_nonNull: "set (nonNull xs) = {v. Some v \<in> set xs}"
  unfolding nonNull_def by (induction xs) (auto split: option.splits)

lemma set_collectBotIds:
  "set (collectBotIds ps ts ls) = p_botId ` set ps \<union> t_botId ` set ts \<union> {v. Some v \<in> l_botId ` set ls}"
  unfolding collectBotIds_def by (auto simp: set_uniq set_nonNull)

lemma keys_fold_update:
  "fst ` set (fold (\<lambda>r m. AList.update (k r) (v r) m) rows m0) = k ` set rows \<union> fst ` set m0"
  by (induction rows arbitrary: m0) (auto simp: dom_update)

lemma buildBotMap_miss: "n \<notin> b_id ` set rows \<Longrightarrow> map_of (buildBotMap rows) n = None"
  unfolding buildBotMap_def
  by (simp add: map_of_eq_None_iff keys_fold_update)

lemma normalizedItems_shape:
  obtains bm um pm where
    "normalizedItems d L =
       map (postItem bm um pm) (take L (botPosts d)) @
       map (tradeItem bm um pm) (take L (trades d)) @
       map (logItem bm um pm) (take L (auditLogs d))"
    and "\<And>n. n \<notin> b_id ` set (bots d) \<Longrightarrow> map_of bm n = None"
proof -
  let ?ids = "collectBotIds (take L (botPosts d)) (take L (trades d)) (take L (auditLogs d))"
  let ?bm = "buildBotMap (filter (\<lambda>b. b_id b \<in> set ?ids) (bots d))"
  let ?uids = "uniq (map (\<lambda>e. snd (snd e)) ?bm)"
  let ?um = "buildUserMap (if ?uids \<noteq> [] then filter (\<lambda>u. u_id u \<in> set ?uids) (users d) else [])"
  let ?pm = "buildPfpMap (if ?ids \<noteq> [] then filter (\<lambda>x. x_botId x \<in> set ?ids) (botXAccounts d) else [])"
  have shape: "normalizedItems d L =
       map (postItem ?bm ?um ?pm) (take L (botPosts d)) @
       map (tradeItem ?bm ?um ?pm) (take L (trades d)) @
       map (logItem ?bm ?um ?pm) (take L (auditLogs d))"
    unfolding normalizedItems_def Let_def pushAll_map
    by (simp only: append_Nil append_assoc)
  have miss: "map_of ?bm n = None" if "n \<notin> b_id ` set (bots d)" for n
    using that by (intro buildBotMap_miss) auto
  from shape miss show thesis by (rule that)
qed

lemma js_tweet: "js ''tweet-'' = [116, 119, 101, 101, 116, 45]"
  and js_trade: "js ''trade-'' = [116, 114, 97, 100, 101, 45]"
  and js_log: "js ''log-'' = [108, 111, 103, 45]"
  by (simp_all add: js_def)

lemma item_ids [simp]:
  "item_id (postItem bm um pm p) = js ''tweet-'' @ numberToString (p_id p)"
  "item_id (tradeItem bm um pm t) = js ''trade-'' @ numberToString (t_id t)"
  "item_id (logItem bm um pm l) = js ''log-'' @ numberToString (l_id l)"
  by (simp_all add: postItem_def tradeItem_def logItem_def Let_def)

lemma item_types [simp]:
  "item_type (postItem bm um pm p) = js ''tweet''"
  "item_type (tradeItem bm um pm t) = js ''trade''"
  "item_type (logItem bm um pm l) = js ''system''"
  by (simp_all add: postItem_def tradeItem_def logItem_def Let_def)

lemma item_times [simp]:
  "createdAt (postItem bm um pm p) = p_createdAt p"
  "createdAt (tradeItem bm um pm t) = t_createdAt t"
  "createdAt (logItem bm um pm l) = l_createdAt l"
  by (simp_all add: postItem_def tradeItem_def logItem_def Let_def)

lemma orString_nonempty: "dflt \<noteq> [] \<Longrightarrow> orString v dflt \<noteq> []"
  unfolding orString_def by (simp split: option.splits)

lemma js_nonempty [simp]: "js ''Unknown'' \<noteq> []" "js ''System'' \<noteq> []"
  by (simp_all add: js_def)

lemma item_names_nonempty:
  "botName (postItem bm um pm p) \<noteq> [] \<and> ownerUsername (postItem bm um pm p) \<noteq> []"
  "botName (tradeItem bm um pm t) \<noteq> [] \<and> ownerUsername (tradeItem bm um pm t) \<noteq> []"
  "botName (logItem bm um pm l) \<noteq> [] \<and> ownerUsername (logItem bm um pm l) \<noteq> []"
  by (simp_all add: postItem_def tradeItem_def logItem_def Let_def orString_nonempty
      split: option.splits)

lemma distinct_map_insort_key:
  "distinct (map f (insort_key g x xs)) \<longleftrightarrow> f x \<notin> f ` set xs \<and> distinct (map f xs)"
  by (induction xs) (auto simp: set_insort_key)

lemma distinct_map_sort_key: "distinct (map f (sort_key g xs)) \<longleftrightarrow> distinct (map f xs)"
  by (induction xs) (simp_all add: distinct_map_insort_key)

lemma distinct_map_take: "distinct (map f xs) \<Longrightarrow> distinct (map f (take n xs))"
  by (simp flip: take_map)

lemma distinct_ids_parts:
  assumes "distinct (map p_id ps)" "distinct (map t_id ts)" "distinct (map l_id ls)"
  shows "distinct (map item_id
           (map (postItem bm um pm) ps @ map (tradeItem bm um pm) ts @ map (logItem bm um pm) ls))"
proof -
  have inj: "inj_on (\<lambda>n. pre @ numberToString n) A" for pre :: jsstring and A
    by (rule inj_onI) (simp add: numberToString_inj)
  have a: "distinct (map item_id (map (postItem bm um pm) ps))"
    using assms(1) inj [of "js ''tweet-''" "set (map p_id ps)"]
    by (auto simp: distinct_map comp_def inj_on_def)
  have b: "distinct (map item_id (map (tradeItem bm um pm) ts))"
    using assms(2) inj [of "js ''trade-''" "set (map t_id ts)"]
    by (auto simp: distinct_map comp_def inj_on_def)
  have c: "distinct (map item_id (map (logItem bm um pm) ls))"
    using assms(3) inj [of "js ''log-''" "set (map l_id ls)"]
    by (auto simp: distinct_map comp_def inj_on_def)
  have ab: "js ''tweet-'' @ x \<noteq> js ''trade-'' @ y" for x y
    by (simp add: js_tweet js_trade)
  have ac: "js ''tweet-'' @ x \<noteq> js ''log-'' @ y" for x y
    by (simp add: js_tweet js_log)
  have bc: "js ''trade-'' @ x \<noteq> js ''log-'' @ y" for x y
    by (simp add: js_trade js_log)
  from a b c show ?thesis
    using ab ac bc by (auto simp: comp_def)
qed

lemma getCombinedActivity_nonempty_ids:
  "collectBotIds (take L (botPosts d)) (take L (trades d)) (take L (auditLogs d)) \<noteq> [] \<Longrightarrow>
     getCombinedActivity d L = take L (sortItems (normalizedItems d L))"
  by (simp add: getCombinedActivity_def)

lemma getCombinedActivity_subset:
  "set (getCombinedActivity d L) \<subseteq> set (normalizedItems d L)"
proof -
  have "set (take L (sortItems (normalizedItems d L))) \<subseteq> set (normalizedItems d L)"
    using set_take_subset [of L "sortItems (normalizedItems d L)"]
    by (simp add: sortItems_def)
  then show ?thesis by (simp add: getCombinedActivity_def)
qed


lemma length_sortItems [simp]: "length (sortItems xs) = length xs"
  by (simp add: sortItems_def)


subsection \<open>Length and order of the feed\<close>

text \<open>
  Claim C3. For every limit \<open>L\<close> and every database, \<open>getCombinedActivity\<close> returns at
  most \<open>L\<close> items, in non-increasing order of creation time, where a missing creation
  time counts as 0 (\<open>timeOf\<close>); so an item without a creation time stands after every
  item whose creation time is positive.
\<close>

theorem combinedActivity_limit_sorted:
  "length (getCombinedActivity d L) \<le> L \<and>
   sorted_wrt (\<lambda>a b. timeOf b \<le> timeOf a) (getCombinedActivity d L) \<and>
   (\<forall>i j t. i < length (getCombinedActivity d L) \<and> j < length (getCombinedActivity d L) \<and>
        createdAt (getCombinedActivity d L ! i) = None \<and>
        createdAt (getCombinedActivity d L ! j) = Some t \<and> 0 < t \<longrightarrow> j < i)"
proof -
  let ?r = "getCombinedActivity d L"
  have len: "length ?r \<le> L"
    by (simp add: getCombinedActivity_def)
  have "sorted (map (\<lambda>a. - timeOf a) (sortItems xs))" for xs
    by (simp add: sortItems_def)
  then have "sorted_wrt (\<lambda>a b. timeOf b \<le> timeOf a) (sortItems xs)" for xs
    by (simp add: sorted_map)
  then have srt: "sorted_wrt (\<lambda>a b. timeOf b \<le> timeOf a) ?r"
    by (simp add: getCombinedActivity_def)
  have "j < i" if "i < length ?r" "j < length ?r" "createdAt (?r ! i) = None"
    "createdAt (?r ! j) = Some t" "0 < t" for i j t
  proof (rule ccontr)
    assume "\<not> j < i"
    moreover from that have "i \<noteq> j" by auto
    ultimately have "i < j" by simp
    with srt that(2) have "timeOf (?r ! j) \<le> timeOf (?r ! i)"
      by (simp add: sorted_wrt_iff_nth_less)
    with that show False by (simp add: timeOf_def)
  qed
  with len srt show ?thesis by blast
qed

text \<open>
  Claim C3 on the sample database with limit 10: four items, newest first, the post
  without a creation time last.
\<close>

theorem combinedActivity_limit_sorted_witness:
  "length (getCombinedActivity demoDb 10) \<le> 10 \<and>
   sorted_wrt (\<lambda>a b. timeOf b \<le> timeOf a) (getCombinedActivity demoDb 10) \<and>
   map createdAt (getCombinedActivity demoDb 10) = [Some 300, Some 200, Some 100, None] \<and>
   createdAt (getCombinedActivity demoDb 10 ! 3) = None \<and>
   createdAt (getCombinedActivity demoDb 10 ! 0) = Some 300 \<and> (0::nat) < 3"
proof -
  have e: "map createdAt (getCombinedActivity demoDb 10) = [Some 300, Some 200, Some 100, None]"
    by code_simp
  have n: "createdAt (getCombinedActivity demoDb 10 ! 3) = None"
    "createdAt (getCombinedActivity demoDb 10 ! 0) = Some 300"
    by code_simp+
  from combinedActivity_limit_sorted [of demoDb 10] e n show ?thesis by simp
qed

subsection \<open>Placeholders and completeness\<close>



text \<open>
  What the three lookup maps hold: a key outside the table has no entry, an entry comes
  from a row of the table, and the bot of every fetched record and the owner of every
  mapped bot have an entry when the table has a row for them.
\<close>

lemma fold_update_hit:
  "map_of (fold (\<lambda>r m. AList.update (k r) (v r) m) rows m0) n = Some x \<Longrightarrow>
     (\<exists>r \<in> set rows. k r = n \<and> x = v r) \<or> map_of m0 n = Some x"
proof (induction rows arbitrary: m0)
  case Nil
  then show ?case by simp
next
  case (Cons r rows)
  from Cons.prems have "map_of (fold (\<lambda>r m. AList.update (k r) (v r) m) rows
      (AList.update (k r) (v r) m0)) n = Some x"
    by simp
  from Cons.IH [OF this] show ?case
    by (auto simp: update_conv' split: if_splits)
qed

lemma fold_update_miss:
  "n \<notin> k ` set rows \<Longrightarrow> map_of (fold (\<lambda>r m. AList.update (k r) (v r) m) rows []) n = None"
  by (simp add: map_of_eq_None_iff keys_fold_update)

lemma normalizedItems_lookups:
  "\<exists>bm um pm.
     normalizedItems d L =
       map (postItem bm um pm) (take L (botPosts d)) @
       map (tradeItem bm um pm) (take L (trades d)) @
       map (logItem bm um pm) (take L (auditLogs d)) \<and>
     (\<forall>n. n \<notin> b_id ` set (bots d) \<longrightarrow> map_of bm n = None) \<and>
     (\<forall>n x. map_of bm n = Some x \<longrightarrow>
        (\<exists>b \<in> set (bots d). b_id b = n \<and> x = (b_botName b, b_userId b))) \<and>
     (\<forall>n. n \<notin> u_id ` set (users d) \<longrightarrow> map_of um n = None) \<and>
     (\<forall>n x. map_of um n = Some x \<longrightarrow> (\<exists>u \<in> set (users d). u_id u = n \<and> x = u_username u)) \<and>
     (\<forall>n. n \<notin> x_botId ` set (botXAccounts d) \<longrightarrow> map_of pm n = None) \<and>
     (\<forall>n. n \<in> p_botId ` set (take L (botPosts d)) \<union> t_botId ` set (take L (trades d)) \<union>
              {v. Some v \<in> l_botId ` set (take L (auditLogs d))} \<and>
           n \<in> b_id ` set (bots d) \<longrightarrow> map_of bm n \<noteq> None) \<and>
     (\<forall>n x. map_of bm n = Some x \<and> snd x \<in> u_id ` set (users d) \<longrightarrow>
           map_of um (snd x) \<noteq> None)"
proof -
  let ?ids = "collectBotIds (take L (botPosts d)) (take L (trades d)) (take L (auditLogs d))"
  let ?brows = "filter (\<lambda>b. b_id b \<in> set ?ids) (bots d)"
  let ?bm = "buildBotMap ?brows"
  let ?uids = "uniq (map (\<lambda>e. snd (snd e)) ?bm)"
  let ?urows = "if ?uids \<noteq> [] then filter (\<lambda>u. u_id u \<in> set ?uids) (users d) else []"
  let ?um = "buildUserMap ?urows"
  let ?xrows = "if ?ids \<noteq> [] then filter (\<lambda>x. x_botId x \<in> set ?ids) (botXAccounts d) else []"
  let ?pm = "buildPfpMap ?xrows"
  have shape: "normalizedItems d L =
       map (postItem ?bm ?um ?pm) (take L (botPosts d)) @
       map (tradeItem ?bm ?um ?pm) (take L (trades d)) @
       map (logItem ?bm ?um ?pm) (take L (auditLogs d))"
    unfolding normalizedItems_def Let_def pushAll_map
    by (simp only: append_Nil append_assoc)
  have sub: "set ?brows \<subseteq> set (bots d)" "set ?urows \<subseteq> set (users d)"
    "set ?xrows \<subseteq> set (botXAccounts d)"
    by auto
  have bmiss: "map_of ?bm n = None" if "n \<notin> b_id ` set (bots d)" for n
    using that by (intro buildBotMap_miss) auto
  have bhit: "\<exists>b \<in> set (bots d). b_id b = n \<and> x = (b_botName b, b_userId b)"
    if "map_of ?bm n = Some x" for n x
    using fold_update_hit [OF that [unfolded buildBotMap_def]] sub(1) by auto
  have umiss: "map_of ?um n = None" if "n \<notin> u_id ` set (users d)" for n
  proof -
    from that sub(2) have "n \<notin> u_id ` set ?urows" by blast
    then show ?thesis unfolding buildUserMap_def by (rule fold_update_miss)
  qed
  have uhit: "\<exists>u \<in> set (users d). u_id u = n \<and> x = u_username u"
    if "map_of ?um n = Some x" for n x
    using fold_update_hit [OF that [unfolded buildUserMap_def]] sub(2) by auto
  have pmiss: "map_of ?pm n = None" if "n \<notin> x_botId ` set (botXAccounts d)" for n
  proof -
    from that sub(3) have "n \<notin> x_botId ` set ?xrows" by blast
    then show ?thesis unfolding buildPfpMap_def by (rule fold_update_miss)
  qed
  have bpresent: "map_of ?bm n \<noteq> None"
    if "n \<in> p_botId ` set (take L (botPosts d)) \<union> t_botId ` set (take L (trades d)) \<union>
              {v. Some v \<in> l_botId ` set (take L (auditLogs d))}"
      and "n \<in> b_id ` set (bots d)" for n
  proof -
    from that(1) have "n \<in> set ?ids" by (simp only: set_collectBotIds)
    with that(2) have "n \<in> b_id ` set ?brows" by auto
    then show ?thesis
      unfolding buildBotMap_def by (simp add: map_of_eq_None_iff keys_fold_update)
  qed
  have upresent: "map_of ?um (snd x) \<noteq> None"
    if "map_of ?bm n = Some x" and "snd x \<in> u_id ` set (users d)" for n x
  proof -
    from that(1) have "(n, x) \<in> set ?bm" by (rule map_of_SomeD)
    then have "snd (snd (n, x)) \<in> (\<lambda>e. snd (snd e)) ` set ?bm" by (rule imageI)
    then have mem: "snd x \<in> set ?uids" by (simp add: set_uniq)
    then have "?uids \<noteq> []" by auto
    with mem that(2) have "snd x \<in> u_id ` set ?urows" by auto
    then show ?thesis
      unfolding buildUserMap_def by (simp add: map_of_eq_None_iff keys_fold_update)
  qed
  show ?thesis
  proof (intro exI conjI)
    show "normalizedItems d L =
       map (postItem ?bm ?um ?pm) (take L (botPosts d)) @
       map (tradeItem ?bm ?um ?pm) (take L (trades d)) @
       map (logItem ?bm ?um ?pm) (take L (auditLogs d))"
      by (rule shape)
    show "\<forall>n. n \<notin> b_id ` set (bots d) \<longrightarrow> map_of ?bm n = None"
      using bmiss by blast
    show "\<forall>n x. map_of ?bm n = Some x \<longrightarrow>
        (\<exists>b \<in> set (bots d). b_id b = n \<and> x = (b_botName b, b_userId b))"
      using bhit by blast
    show "\<forall>n. n \<notin> u_id ` set (users d) \<longrightarrow> map_of ?um n = None"
      using umiss by blast
    show "\<forall>n x. map_of ?um n = Some x \<longrightarrow> (\<exists>u \<in> set (users d). u_id u = n \<and> x = u_username u)"
      using uhit by blast
    show "\<forall>n. n \<notin> x_botId ` set (botXAccounts d) \<longrightarrow> map_of ?pm n = None"
      using pmiss by blast
    show "\<forall>n. n \<in> p_botId ` set (take L (botPosts d)) \<union> t_botId ` set (take L (trades d)) \<union>
              {v. Some v \<in> l_botId ` set (take L (auditLogs d))} \<and>
           n \<in> b_id ` set (bots d) \<longrightarrow> map_of ?bm n \<noteq> None"
      using bpresent by blast
    show "\<forall>n x. map_of ?bm n = Some x \<and> snd x \<in> u_id ` set (users d) \<longrightarrow>
           map_of ?um (snd x) \<noteq> None"
      using upresent by blast
  qed
qed

text \<open>
  The bot name and owner name of an item, read off the \<open>bots\<close> and \<open>users\<close> tables.
\<close>

lemma resolve_names:
  fixes n :: int and nameOut ownerOut :: jsstring
  assumes bmiss: "\<forall>n. n \<notin> b_id ` set (bots d) \<longrightarrow> map_of bm n = None"
    and bhit: "\<forall>n x. map_of bm n = Some x \<longrightarrow>
           (\<exists>b \<in> set (bots d). b_id b = n \<and> x = (b_botName b, b_userId b))"
    and umiss: "\<forall>n. n \<notin> u_id ` set (users d) \<longrightarrow> map_of um n = None"
    and uhit: "\<forall>n x. map_of um n = Some x \<longrightarrow>
           (\<exists>u \<in> set (users d). u_id u = n \<and> x = u_username u)"
    and bpresent: "n \<in> b_id ` set (bots d) \<longrightarrow> map_of bm n \<noteq> None"
    and upresent: "\<forall>x. map_of bm n = Some x \<and> snd x \<in> u_id ` set (users d) \<longrightarrow>
           map_of um (snd x) \<noteq> None"
    and nameOut: "nameOut = orString (map_option fst (map_of bm n)) dflt"
    and ownerOut: "\<forall>x. map_of bm n = Some x \<longrightarrow>
           ownerOut = orString (map_of um (snd x)) (js ''Unknown'')"
  shows "(n \<notin> b_id ` set (bots d) \<longrightarrow> nameOut = dflt) \<and>
     (n \<in> b_id ` set (bots d) \<and>
        (\<forall>b \<in> set (bots d). b_id b = n \<longrightarrow> b_userId b \<notin> u_id ` set (users d)) \<longrightarrow>
        ownerOut = js ''Unknown'') \<and>
     (nameOut = dflt \<or> (\<exists>b \<in> set (bots d). b_id b = n \<and> nameOut = b_botName b)) \<and>
     (n \<in> b_id ` set (bots d) \<longrightarrow> ownerOut = js ''Unknown'' \<or>
        (\<exists>b \<in> set (bots d). \<exists>u \<in> set (users d). b_id b = n \<and> u_id u = b_userId b \<and>
           ownerOut = u_username u)) \<and>
     (\<forall>nm. n \<in> b_id ` set (bots d) \<and> (\<forall>b \<in> set (bots d). b_id b = n \<longrightarrow> b_botName b = nm) \<and>
        nm \<noteq> [] \<longrightarrow> nameOut = nm) \<and>
     (\<forall>uid unm. n \<in> b_id ` set (bots d) \<and>
        (\<forall>b \<in> set (bots d). b_id b = n \<longrightarrow> b_userId b = uid) \<and> uid \<in> u_id ` set (users d) \<and>
        (\<forall>u \<in> set (users d). u_id u = uid \<longrightarrow> u_username u = unm) \<and> unm \<noteq> [] \<longrightarrow>
        ownerOut = unm)"
proof (cases "map_of bm n")
  case None
  with bpresent have "n \<notin> b_id ` set (bots d)" by blast
  moreover from None nameOut have "nameOut = dflt" by (simp add: orString_def)
  ultimately show ?thesis by blast
next
  case (Some x)
  from bhit Some obtain b where b: "b \<in> set (bots d)" "b_id b = n"
    "x = (b_botName b, b_userId b)" by blast
  from Some bmiss have known: "n \<in> b_id ` set (bots d)" by force
  from Some b(3) nameOut have name: "nameOut = (if b_botName b = [] then dflt else b_botName b)"
    by (simp add: orString_def)
  from ownerOut Some b(3) have owner: "ownerOut = orString (map_of um (b_userId b)) (js ''Unknown'')"
    by simp
  have c2: "ownerOut = js ''Unknown''"
    if "\<forall>b \<in> set (bots d). b_id b = n \<longrightarrow> b_userId b \<notin> u_id ` set (users d)"
  proof -
    from that b have "b_userId b \<notin> u_id ` set (users d)" by blast
    with umiss owner show ?thesis by (simp add: orString_def)
  qed
  have c3: "nameOut = dflt \<or> (\<exists>b \<in> set (bots d). b_id b = n \<and> nameOut = b_botName b)"
    using name b(1,2) by (cases "b_botName b = []") auto
  have c4: "ownerOut = js ''Unknown'' \<or>
        (\<exists>b \<in> set (bots d). \<exists>u \<in> set (users d). b_id b = n \<and> u_id u = b_userId b \<and>
           ownerOut = u_username u)"
  proof (cases "map_of um (b_userId b)")
    case None
    with owner show ?thesis by (simp add: orString_def)
  next
    case (Some unm)
    from uhit Some obtain u where "u \<in> set (users d)" "u_id u = b_userId b"
      "unm = u_username u" by blast
    moreover from owner Some have "ownerOut = js ''Unknown'' \<or> ownerOut = unm"
      by (simp add: orString_def)
    ultimately show ?thesis using b(1,2) by blast
  qed
  have c5: "nameOut = nm"
    if "\<forall>b \<in> set (bots d). b_id b = n \<longrightarrow> b_botName b = nm" "nm \<noteq> []" for nm
  proof -
    from that(1) b have "b_botName b = nm" by blast
    with that(2) name show ?thesis by simp
  qed
  have c6: "ownerOut = unm"
    if "\<forall>b \<in> set (bots d). b_id b = n \<longrightarrow> b_userId b = uid" "uid \<in> u_id ` set (users d)"
      "\<forall>u \<in> set (users d). u_id u = uid \<longrightarrow> u_username u = unm" "unm \<noteq> []" for uid unm
  proof -
    from that(1) b have uid: "b_userId b = uid" by blast
    with that(2) b(3) have "snd x \<in> u_id ` set (users d)" by simp
    with upresent Some b(3) uid obtain v where v: "map_of um uid = Some v" by auto
    from uhit v that(3) have "v = unm" by blast
    with v owner uid that(4) show ?thesis by (simp add: orString_def)
  qed
  from known c2 c3 c4 c5 c6 show ?thesis by blast
qed

lemma postItem_resolved:
  assumes bmiss: "\<forall>n. n \<notin> b_id ` set (bots d) \<longrightarrow> map_of bm n = None"
    and bhit: "\<forall>n x. map_of bm n = Some x \<longrightarrow>
           (\<exists>b \<in> set (bots d). b_id b = n \<and> x = (b_botName b, b_userId b))"
    and umiss: "\<forall>n. n \<notin> u_id ` set (users d) \<longrightarrow> map_of um n = None"
    and uhit: "\<forall>n x. map_of um n = Some x \<longrightarrow>
           (\<exists>u \<in> set (users d). u_id u = n \<and> x = u_username u)"
    and pmiss: "\<forall>n. n \<notin> x_botId ` set (botXAccounts d) \<longrightarrow> map_of pm n = None"
    and bpresent: "p_botId p \<in> b_id ` set (bots d) \<longrightarrow> map_of bm (p_botId p) \<noteq> None"
    and upresent: "\<forall>n x. map_of bm n = Some x \<and> snd x \<in> u_id ` set (users d) \<longrightarrow>
           map_of um (snd x) \<noteq> None"
  shows "item_id (postItem bm um pm p) = js ''tweet-'' @ numberToString (p_id p) \<and>
     botId (postItem bm um pm p) = p_botId p \<and>
     (p_botId p \<notin> b_id ` set (bots d) \<longrightarrow>
        botName (postItem bm um pm p) = js ''Unknown'' \<and>
        ownerUsername (postItem bm um pm p) = js ''Unknown'') \<and>
     ((\<forall>b \<in> set (bots d). b_id b = p_botId p \<longrightarrow> b_userId b \<notin> u_id ` set (users d)) \<longrightarrow>
        ownerUsername (postItem bm um pm p) = js ''Unknown'') \<and>
     (p_botId p \<notin> x_botId ` set (botXAccounts d) \<longrightarrow>
        botProfileImageUrl (postItem bm um pm p) = None) \<and>
     (botName (postItem bm um pm p) = js ''Unknown'' \<or>
        (\<exists>b \<in> set (bots d). b_id b = p_botId p \<and> botName (postItem bm um pm p) = b_botName b)) \<and>
     (ownerUsername (postItem bm um pm p) = js ''Unknown'' \<or>
        (\<exists>b \<in> set (bots d). \<exists>u \<in> set (users d). b_id b = p_botId p \<and> u_id u = b_userId b \<and>
           ownerUsername (postItem bm um pm p) = u_username u)) \<and>
     (\<forall>nm. p_botId p \<in> b_id ` set (bots d) \<and>
        (\<forall>b \<in> set (bots d). b_id b = p_botId p \<longrightarrow> b_botName b = nm) \<and> nm \<noteq> [] \<longrightarrow>
        botName (postItem bm um pm p) = nm) \<and>
     (\<forall>uid unm. p_botId p \<in> b_id ` set (bots d) \<and>
        (\<forall>b \<in> set (bots d). b_id b = p_botId p \<longrightarrow> b_userId b = uid) \<and>
        uid \<in> u_id ` set (users d) \<and>
        (\<forall>u \<in> set (users d). u_id u = uid \<longrightarrow> u_username u = unm) \<and> unm \<noteq> [] \<longrightarrow>
        ownerUsername (postItem bm um pm p) = unm)"
proof -
  let ?it = "postItem bm um pm p"
  have name: "botName ?it = orString (map_option fst (map_of bm (p_botId p))) (js ''Unknown'')"
    by (simp add: postItem_def Let_def)
  have owner: "\<forall>x. map_of bm (p_botId p) = Some x \<longrightarrow>
      ownerUsername ?it = orString (map_of um (snd x)) (js ''Unknown'')"
    by (simp add: postItem_def)
  have owner_none: "ownerUsername ?it = js ''Unknown''" if "p_botId p \<notin> b_id ` set (bots d)"
    using bmiss that by (simp add: postItem_def)
  have avatar: "botProfileImageUrl ?it = None" if "p_botId p \<notin> x_botId ` set (botXAccounts d)"
    using pmiss that by (simp add: postItem_def orNull_def Let_def)
  have basics: "item_id ?it = js ''tweet-'' @ numberToString (p_id p)" "botId ?it = p_botId p"
    by (simp_all add: postItem_def Let_def)
  from upresent have up: "\<forall>x. map_of bm (p_botId p) = Some x \<and> snd x \<in> u_id ` set (users d) \<longrightarrow>
           map_of um (snd x) \<noteq> None"
    by blast
  note r = resolve_names [OF bmiss bhit umiss uhit bpresent up name owner]
  from r basics owner_none avatar show ?thesis
    by (intro conjI) blast+
qed

lemma tradeItem_resolved:
  assumes bmiss: "\<forall>n. n \<notin> b_id ` set (bots d) \<longrightarrow> map_of bm n = None"
    and bhit: "\<forall>n x. map_of bm n = Some x \<longrightarrow>
           (\<exists>b \<in> set (bots d). b_id b = n \<and> x = (b_botName b, b_userId b))"
    and umiss: "\<forall>n. n \<notin> u_id ` set (users d) \<longrightarrow> map_of um n = None"
    and uhit: "\<forall>n x. map_of um n = Some x \<longrightarrow>
           (\<exists>u \<in> set (users d). u_id u = n \<and> x = u_username u)"
    and pmiss: "\<forall>n. n \<notin> x_botId ` set (botXAccounts d) \<longrightarrow> map_of pm n = None"
    and bpresent: "t_botId tr \<in> b_id ` set (bots d) \<longrightarrow> map_of bm (t_botId tr) \<noteq> None"
    and upresent: "\<forall>n x. map_of bm n = Some x \<and> snd x \<in> u_id ` set (users d) \<longrightarrow>
           map_of um (snd x) \<noteq> None"
  shows "item_id (tradeItem bm um pm tr) = js ''trade-'' @ numberToString (t_id tr) \<and>
     botId (tradeItem bm um pm tr) = t_botId tr \<and>
     (t_botId tr \<notin> b_id ` set (bots d) \<longrightarrow>
        botName (tradeItem bm um pm tr) = js ''Unknown'' \<and>
        ownerUsername (tradeItem bm um pm tr) = js ''Unknown'') \<and>
     ((\<forall>b \<in> set (bots d). b_id b = t_botId tr \<longrightarrow> b_userId b \<notin> u_id ` set (users d)) \<longrightarrow>
        ownerUsername (tradeItem bm um pm tr) = js ''Unknown'') \<and>
     (t_botId tr \<notin> x_botId ` set (botXAccounts d) \<longrightarrow>
        botProfileImageUrl (tradeItem bm um pm tr) = None) \<and>
     (botName (tradeItem bm um pm tr) = js ''Unknown'' \<or>
        (\<exists>b \<in> set (bots d). b_id b = t_botId tr \<and> botName (tradeItem bm um pm tr) = b_botName b)) \<and>
     (ownerUsername (tradeItem bm um pm tr) = js ''Unknown'' \<or>
        (\<exists>b \<in> set (bots d). \<exists>u \<in> set (users d). b_id b = t_botId tr \<and> u_id u = b_userId b \<and>
           ownerUsername (tradeItem bm um pm tr) = u_username u)) \<and>
     (\<forall>nm. t_botId tr \<in> b_id ` set (bots d) \<and>
        (\<forall>b \<in> set (bots d). b_id b = t_botId tr \<longrightarrow> b_botName b = nm) \<and> nm \<noteq> [] \<longrightarrow>
        botName (tradeItem bm um pm tr) = nm) \<and>
     (\<forall>uid unm. t_botId tr \<in> b_id ` set (bots d) \<and>
        (\<forall>b \<in> set (bots d). b_id b = t_botId tr \<longrightarrow> b_userId b = uid) \<and>
        uid \<in> u_id ` set (users d) \<and>
        (\<forall>u \<in> set (users d). u_id u = uid \<longrightarrow> u_username u = unm) \<and> unm \<noteq> [] \<longrightarrow>
        ownerUsername (tradeItem bm um pm tr) = unm)"
proof -
  let ?it = "tradeItem bm um pm tr"
  have name: "botName ?it = orString (map_option fst (map_of bm (t_botId tr))) (js ''Unknown'')"
    by (simp add: tradeItem_def Let_def)
  have owner: "\<forall>x. map_of bm (t_botId tr) = Some x \<longrightarrow>
      ownerUsername ?it = orString (map_of um (snd x)) (js ''Unknown'')"
    by (simp add: tradeItem_def)
  have owner_none: "ownerUsername ?it = js ''Unknown''" if "t_botId tr \<notin> b_id ` set (bots d)"
    using bmiss that by (simp add: tradeItem_def)
  have avatar: "botProfileImageUrl ?it = None" if "t_botId tr \<notin> x_botId ` set (botXAccounts d)"
    using pmiss that by (simp add: tradeItem_def orNull_def Let_def)
  have basics: "item_id ?it = js ''trade-'' @ numberToString (t_id tr)" "botId ?it = t_botId tr"
    by (simp_all add: tradeItem_def Let_def)
  from upresent have up: "\<forall>x. map_of bm (t_botId tr) = Some x \<and> snd x \<in> u_id ` set (users d) \<longrightarrow>
           map_of um (snd x) \<noteq> None"
    by blast
  note r = resolve_names [OF bmiss bhit umiss uhit bpresent up name owner]
  from r basics owner_none avatar show ?thesis
    by (intro conjI) blast+
qed

lemma logItem_resolved:
  assumes bmiss: "\<forall>n. n \<notin> b_id ` set (bots d) \<longrightarrow> map_of bm n = None"
    and bhit: "\<forall>n x. map_of bm n = Some x \<longrightarrow>
           (\<exists>b \<in> set (bots d). b_id b = n \<and> x = (b_botName b, b_userId b))"
    and umiss: "\<forall>n. n \<notin> u_id ` set (users d) \<longrightarrow> map_of um n = None"
    and uhit: "\<forall>n x. map_of um n = Some x \<longrightarrow>
           (\<exists>u \<in> set (users d). u_id u = n \<and> x = u_username u)"
    and pmiss: "\<forall>n. n \<notin> x_botId ` set (botXAccounts d) \<longrightarrow> map_of pm n = None"
    and bpresent: "\<forall>n. l_botId lg = Some n \<and> n \<in> b_id ` set (bots d) \<longrightarrow> map_of bm n \<noteq> None"
    and upresent: "\<forall>n x. map_of bm n = Some x \<and> snd x \<in> u_id ` set (users d) \<longrightarrow>
           map_of um (snd x) \<noteq> None"
  shows "item_id (logItem bm um pm lg) = js ''log-'' @ numberToString (l_id lg) \<and>
     botId (logItem bm um pm lg) = (case l_botId lg of Some n \<Rightarrow> n | None \<Rightarrow> 0) \<and>
     ((\<forall>n. l_botId lg = Some n \<longrightarrow> n = 0 \<or> n \<notin> b_id ` set (bots d)) \<longrightarrow>
        botName (logItem bm um pm lg) = js ''System'' \<and>
        (l_userId lg = None \<or> l_userId lg = Some 0 \<longrightarrow>
           ownerUsername (logItem bm um pm lg) = js ''System'') \<and>
        (\<forall>u. l_userId lg = Some u \<and> u \<noteq> 0 \<and> u \<notin> u_id ` set (users d) \<longrightarrow>
           ownerUsername (logItem bm um pm lg) = js ''Unknown'')) \<and>
     (\<forall>n. l_botId lg = Some n \<and> n \<noteq> 0 \<and> n \<in> b_id ` set (bots d) \<and>
        (\<forall>b \<in> set (bots d). b_id b = n \<longrightarrow> b_userId b \<notin> u_id ` set (users d)) \<longrightarrow>
        ownerUsername (logItem bm um pm lg) = js ''Unknown'') \<and>
     ((\<forall>n. l_botId lg = Some n \<longrightarrow> n = 0 \<or> n \<notin> x_botId ` set (botXAccounts d)) \<longrightarrow>
        botProfileImageUrl (logItem bm um pm lg) = None) \<and>
     (botName (logItem bm um pm lg) = js ''System'' \<or>
        (\<exists>b \<in> set (bots d). l_botId lg = Some (b_id b) \<and>
           botName (logItem bm um pm lg) = b_botName b)) \<and>
     (\<forall>n nm. l_botId lg = Some n \<and> n \<noteq> 0 \<and> n \<in> b_id ` set (bots d) \<and>
        (\<forall>b \<in> set (bots d). b_id b = n \<longrightarrow> b_botName b = nm) \<and> nm \<noteq> [] \<longrightarrow>
        botName (logItem bm um pm lg) = nm) \<and>
     (\<forall>n uid unm. l_botId lg = Some n \<and> n \<noteq> 0 \<and> n \<in> b_id ` set (bots d) \<and>
        (\<forall>b \<in> set (bots d). b_id b = n \<longrightarrow> b_userId b = uid) \<and>
        uid \<in> u_id ` set (users d) \<and>
        (\<forall>u \<in> set (users d). u_id u = uid \<longrightarrow> u_username u = unm) \<and> unm \<noteq> [] \<longrightarrow>
        ownerUsername (logItem bm um pm lg) = unm)"
proof -
  let ?it = "logItem bm um pm lg"
  have ident: "item_id ?it = js ''log-'' @ numberToString (l_id lg)"
    by (simp add: logItem_def Let_def)
  have by_user: "(l_userId lg = None \<or> l_userId lg = Some 0 \<longrightarrow> ownerUsername ?it = js ''System'') \<and>
      (\<forall>u. l_userId lg = Some u \<and> u \<noteq> 0 \<and> u \<notin> u_id ` set (users d) \<longrightarrow>
         ownerUsername ?it = js ''Unknown'')"
    if "(case truthyId (l_botId lg) of Some n \<Rightarrow> map_of bm n | None \<Rightarrow> None) = None"
    using that umiss by (auto simp: logItem_def truthyId_def orString_def)
  show ?thesis
  proof (cases "truthyId (l_botId lg)")
    case None
    then have absent: "l_botId lg = None \<or> l_botId lg = Some 0"
      by (auto simp: truthyId_def split: option.splits if_splits)
    from None have "botName ?it = js ''System''" "botProfileImageUrl ?it = None"
      by (simp_all add: logItem_def orString_def)
    moreover from None absent have "botId ?it = (case l_botId lg of Some n \<Rightarrow> n | None \<Rightarrow> 0)"
      by (auto simp: logItem_def)
    moreover from None have "(case truthyId (l_botId lg) of Some n \<Rightarrow> map_of bm n | None \<Rightarrow> None) = None"
      by simp
    note by_user [OF this]
    moreover from absent have "\<forall>n. l_botId lg = Some n \<longrightarrow> n = 0" by auto
    ultimately show ?thesis
      using ident by (intro conjI) blast+
  next
    case (Some n)
    then have n: "l_botId lg = Some n" "n \<noteq> 0"
      by (auto simp: truthyId_def split: option.splits if_splits)
    have bid: "botId ?it = (case l_botId lg of Some n \<Rightarrow> n | None \<Rightarrow> 0)"
      using Some n by (simp add: logItem_def Let_def)
    have name: "botName ?it = orString (map_option fst (map_of bm n)) (js ''System'')"
      using Some by (simp add: logItem_def Let_def)
    have owner: "\<forall>x. map_of bm n = Some x \<longrightarrow>
        ownerUsername ?it = orString (map_of um (snd x)) (js ''Unknown'')"
      using Some by (simp add: logItem_def Let_def)
    have avatar: "botProfileImageUrl ?it = None" if "n \<notin> x_botId ` set (botXAccounts d)"
      using pmiss that Some by (simp add: logItem_def orNull_def Let_def)
    have unresolved: "(l_userId lg = None \<or> l_userId lg = Some 0 \<longrightarrow>
          ownerUsername ?it = js ''System'') \<and>
      (\<forall>u. l_userId lg = Some u \<and> u \<noteq> 0 \<and> u \<notin> u_id ` set (users d) \<longrightarrow>
         ownerUsername ?it = js ''Unknown'')"
      if "n \<notin> b_id ` set (bots d)"
    proof -
      from bmiss that have "map_of bm n = None" by blast
      with Some have "(case truthyId (l_botId lg) of Some n \<Rightarrow> map_of bm n | None \<Rightarrow> None) = None"
        by simp
      then show ?thesis by (rule by_user)
    qed
    from bpresent n have bp: "n \<in> b_id ` set (bots d) \<longrightarrow> map_of bm n \<noteq> None" by blast
    from upresent have up: "\<forall>x. map_of bm n = Some x \<and> snd x \<in> u_id ` set (users d) \<longrightarrow>
           map_of um (snd x) \<noteq> None"
      by blast
    note r = resolve_names [OF bmiss bhit umiss uhit bp up name owner]
    note rc1 = r [THEN conjunct1]
    note rc2 = r [THEN conjunct2, THEN conjunct1]
    note rc3 = r [THEN conjunct2, THEN conjunct2, THEN conjunct1]
    note rc5 = r [THEN conjunct2, THEN conjunct2, THEN conjunct2, THEN conjunct2, THEN conjunct1]
    note rc6 = r [THEN conjunct2, THEN conjunct2, THEN conjunct2, THEN conjunct2, THEN conjunct2]
    show ?thesis
      unfolding n(1) option.inject option.case
      apply (intro conjI)
      subgoal by (rule ident)
      subgoal using bid n(1) by simp
      subgoal using rc1 unresolved n(2) by blast
      subgoal using rc2 by blast
      subgoal using avatar n(2) by blast
      subgoal using rc3 by blast
      subgoal using rc5 by blast
      subgoal using rc6 by blast
      done
  qed
qed

lemma nth_three_maps:
  "i < length xs \<Longrightarrow> (map f xs @ map g ys @ map h zs) ! i = f (xs ! i)"
  "i < length ys \<Longrightarrow> (map f xs @ map g ys @ map h zs) ! (length xs + i) = g (ys ! i)"
  "i < length zs \<Longrightarrow>
     (map f xs @ map g ys @ map h zs) ! (length xs + length ys + i) = h (zs ! i)"
  by (simp_all add: nth_append)

text \<open>
  Claim C1 as stated fails where the fetched batches reference no bot id: the early
  return drops the fetched system log.
\<close>

theorem combinedActivity_no_bot_ids_empty:
  "length (take 10 (auditLogs systemOnlyDb)) = 1 \<and> getCombinedActivity systemOnlyDb 10 = []"
  by code_simp

text \<open>
  Claim C1, amended. When some fetched record references a bot id (any post, any trade,
  or an audit log whose bot id is not null), the items array holds exactly one item per
  fetched post, trade and audit log, in that order, each with a non-empty bot name and
  owner name; the result is that array sorted and cut to the limit, so it has as many
  items as were fetched, or \<open>L\<close> if that is less. The item at the position of a record
  carries that record's identifier and bot id, and its names come from the lookups:
  a post or trade whose bot has no row in \<open>bots\<close> is named \<open>Unknown\<close> with owner
  \<open>Unknown\<close>; an audit log whose bot id is null, zero or without a row is named
  \<open>System\<close>, with owner \<open>System\<close> when its user id is null or zero and \<open>Unknown\<close>
  when its user has no row in \<open>users\<close>; a bot whose owner has no row in \<open>users\<close>
  gets the owner \<open>Unknown\<close>; a missing X account gives no profile image; and a bot
  or owner that is found with a non-empty name is shown under that name. When no
  fetched record references a bot id, the result is empty.
\<close>

theorem combinedActivity_one_item_per_record:
  "(take L (botPosts d) \<noteq> [] \<or> take L (trades d) \<noteq> [] \<or>
      (\<exists>lg \<in> set (take L (auditLogs d)). l_botId lg \<noteq> None) \<longrightarrow>
      getCombinedActivity d L = take L (sortItems (normalizedItems d L)) \<and>
      map (\<lambda>it. (item_type it, item_id it, createdAt it)) (normalizedItems d L) =
        map (\<lambda>p. (js ''tweet'', js ''tweet-'' @ numberToString (p_id p), p_createdAt p))
          (take L (botPosts d)) @
        map (\<lambda>t. (js ''trade'', js ''trade-'' @ numberToString (t_id t), t_createdAt t))
          (take L (trades d)) @
        map (\<lambda>l. (js ''system'', js ''log-'' @ numberToString (l_id l), l_createdAt l))
          (take L (auditLogs d)) \<and>
      (\<forall>it \<in> set (normalizedItems d L). botName it \<noteq> [] \<and> ownerUsername it \<noteq> []) \<and>
      length (getCombinedActivity d L) =
        min L (length (take L (botPosts d)) + length (take L (trades d)) +
               length (take L (auditLogs d))) \<and>
      (\<forall>i < length (take L (botPosts d)).
         let p = take L (botPosts d) ! i; it = normalizedItems d L ! i in
         item_id it = js ''tweet-'' @ numberToString (p_id p) \<and>
         botId it = p_botId p \<and>
         (p_botId p \<notin> b_id ` set (bots d) \<longrightarrow>
            botName it = js ''Unknown'' \<and> ownerUsername it = js ''Unknown'') \<and>
         ((\<forall>b \<in> set (bots d). b_id b = p_botId p \<longrightarrow> b_userId b \<notin> u_id ` set (users d)) \<longrightarrow>
            ownerUsername it = js ''Unknown'') \<and>
         (p_botId p \<notin> x_botId ` set (botXAccounts d) \<longrightarrow> botProfileImageUrl it = None) \<and>
         (botName it = js ''Unknown'' \<or>
            (\<exists>b \<in> set (bots d). b_id b = p_botId p \<and> botName it = b_botName b)) \<and>
         (ownerUsername it = js ''Unknown'' \<or>
            (\<exists>b \<in> set (bots d). \<exists>u \<in> set (users d). b_id b = p_botId p \<and>
               u_id u = b_userId b \<and> ownerUsername it = u_username u)) \<and>
         (\<forall>nm. p_botId p \<in> b_id ` set (bots d) \<and>
            (\<forall>b \<in> set (bots d). b_id b = p_botId p \<longrightarrow> b_botName b = nm) \<and> nm \<noteq> [] \<longrightarrow>
            botName it = nm) \<and>
         (\<forall>uid unm. p_botId p \<in> b_id ` set (bots d) \<and>
            (\<forall>b \<in> set (bots d). b_id b = p_botId p \<longrightarrow> b_userId b = uid) \<and>
            uid \<in> u_id ` set (users d) \<and>
            (\<forall>u \<in> set (users d). u_id u = uid \<longrightarrow> u_username u = unm) \<and> unm \<noteq> [] \<longrightarrow>
            ownerUsername it = unm)) \<and>
      (\<forall>i < length (take L (trades d)).
         let tr = take L (trades d) ! i;
             it = normalizedItems d L ! (length (take L (botPosts d)) + i) in
         item_id it = js ''trade-'' @ numberToString (t_id tr) \<and>
         botId it = t_botId tr \<and>
         (t_botId tr \<notin> b_id ` set (bots d) \<longrightarrow>
            botName it = js ''Unknown'' \<and> ownerUsername it = js ''Unknown'') \<and>
         ((\<forall>b \<in> set (bots d). b_id b = t_botId tr \<longrightarrow> b_userId b \<notin> u_id ` set (users d)) \<longrightarrow>
            ownerUsername it = js ''Unknown'') \<and>
         (t_botId tr \<notin> x_botId ` set (botXAccounts d) \<longrightarrow> botProfileImageUrl it = None) \<and>
         (botName it = js ''Unknown'' \<or>
            (\<exists>b \<in> set (bots d). b_id b = t_botId tr \<and> botName it = b_botName b)) \<and>
         (ownerUsername it = js ''Unknown'' \<or>
            (\<exists>b \<in> set (bots d). \<exists>u \<in> set (users d). b_id b = t_botId tr \<and>
               u_id u = b_userId b \<and> ownerUsername it = u_username u)) \<and>
         (\<forall>nm. t_botId tr \<in> b_id ` set (bots d) \<and>
            (\<forall>b \<in> set (bots d). b_id b = t_botId tr \<longrightarrow> b_botName b = nm) \<and> nm \<noteq> [] \<longrightarrow>
            botName it = nm) \<and>
         (\<forall>uid unm. t_botId tr \<in> b_id ` set (bots d) \<and>
            (\<forall>b \<in> set (bots d). b_id b = t_botId tr \<longrightarrow> b_userId b = uid) \<and>
            uid \<in> u_id ` set (users d) \<and>
            (\<forall>u \<in> set (users d). u_id u = uid \<longrightarrow> u_username u = unm) \<and> unm \<noteq> [] \<longrightarrow>
            ownerUsername it = unm)) \<and>
      (\<forall>i < length (take L (auditLogs d)).
         let lg = take L (auditLogs d) ! i;
             it = normalizedItems d L !
                    (length (take L (botPosts d)) + length (take L (trades d)) + i) in
         item_id it = js ''log-'' @ numberToString (l_id lg) \<and>
         botId it = (case l_botId lg of Some n \<Rightarrow> n | None \<Rightarrow> 0) \<and>
         ((\<forall>n. l_botId lg = Some n \<longrightarrow> n = 0 \<or> n \<notin> b_id ` set (bots d)) \<longrightarrow>
            botName it = js ''System'' \<and>
            (l_userId lg = None \<or> l_userId lg = Some 0 \<longrightarrow> ownerUsername it = js ''System'') \<and>
            (\<forall>u. l_userId lg = Some u \<and> u \<noteq> 0 \<and> u \<notin> u_id ` set (users d) \<longrightarrow>
               ownerUsername it = js ''Unknown'')) \<and>
         (\<forall>n. l_botId lg = Some n \<and> n \<noteq> 0 \<and> n \<in> b_id ` set (bots d) \<and>
            (\<forall>b \<in> set (bots d). b_id b = n \<longrightarrow> b_userId b \<notin> u_id ` set (users d)) \<longrightarrow>
            ownerUsername it = js ''Unknown'') \<and>
         ((\<forall>n. l_botId lg = Some n \<longrightarrow> n = 0 \<or> n \<notin> x_botId ` set (botXAccounts d)) \<longrightarrow>
            botProfileImageUrl it = None) \<and>
         (botName it = js ''System'' \<or>
            (\<exists>b \<in> set (bots d). l_botId lg = Some (b_id b) \<and> botName it = b_botName b)) \<and>
         (\<forall>n nm. l_botId lg = Some n \<and> n \<noteq> 0 \<and> n \<in> b_id ` set (bots d) \<and>
            (\<forall>b \<in> set (bots d). b_id b = n \<longrightarrow> b_botName b = nm) \<and> nm \<noteq> [] \<longrightarrow>
            botName it = nm) \<and>
         (\<forall>n uid unm. l_botId lg = Some n \<and> n \<noteq> 0 \<and> n \<in> b_id ` set (bots d) \<and>
            (\<forall>b \<in> set (bots d). b_id b = n \<longrightarrow> b_userId b = uid) \<and>
            uid \<in> u_id ` set (users d) \<and>
            (\<forall>u \<in> set (users d). u_id u = uid \<longrightarrow> u_username u = unm) \<and> unm \<noteq> [] \<longrightarrow>
            ownerUsername it = unm))) \<and>
   (take L (botPosts d) = [] \<and> take L (trades d) = [] \<and>
      (\<forall>lg \<in> set (take L (auditLogs d)). l_botId lg = None) \<longrightarrow>
      getCombinedActivity d L = [])"
  (is "(_ \<longrightarrow> _ \<and> _ \<and> _ \<and> _ \<and> (\<forall>i. _ \<longrightarrow> ?P i) \<and> (\<forall>i. _ \<longrightarrow> ?T i) \<and> (\<forall>i. _ \<longrightarrow> ?G i)) \<and> _")
proof -
  from normalizedItems_lookups [of d L] obtain bm um pm where shape: "normalizedItems d L =
       map (postItem bm um pm) (take L (botPosts d)) @
       map (tradeItem bm um pm) (take L (trades d)) @
       map (logItem bm um pm) (take L (auditLogs d))"
    and bmiss: "\<forall>n. n \<notin> b_id ` set (bots d) \<longrightarrow> map_of bm n = None"
    and bhit: "\<forall>n x. map_of bm n = Some x \<longrightarrow>
        (\<exists>b \<in> set (bots d). b_id b = n \<and> x = (b_botName b, b_userId b))"
    and umiss: "\<forall>n. n \<notin> u_id ` set (users d) \<longrightarrow> map_of um n = None"
    and uhit: "\<forall>n x. map_of um n = Some x \<longrightarrow>
        (\<exists>u \<in> set (users d). u_id u = n \<and> x = u_username u)"
    and pmiss: "\<forall>n. n \<notin> x_botId ` set (botXAccounts d) \<longrightarrow> map_of pm n = None"
    and bpresent: "\<forall>n. n \<in> p_botId ` set (take L (botPosts d)) \<union>
              t_botId ` set (take L (trades d)) \<union>
              {v. Some v \<in> l_botId ` set (take L (auditLogs d))} \<and>
           n \<in> b_id ` set (bots d) \<longrightarrow> map_of bm n \<noteq> None"
    and upresent: "\<forall>n x. map_of bm n = Some x \<and> snd x \<in> u_id ` set (users d) \<longrightarrow>
           map_of um (snd x) \<noteq> None"
    by (elim exE conjE)
  have ids: "map (\<lambda>it. (item_type it, item_id it, createdAt it)) (normalizedItems d L) =
        map (\<lambda>p. (js ''tweet'', js ''tweet-'' @ numberToString (p_id p), p_createdAt p))
          (take L (botPosts d)) @
        map (\<lambda>t. (js ''trade'', js ''trade-'' @ numberToString (t_id t), t_createdAt t))
          (take L (trades d)) @
        map (\<lambda>l. (js ''system'', js ''log-'' @ numberToString (l_id l), l_createdAt l))
          (take L (auditLogs d))"
    unfolding shape by (simp add: comp_def)
  have names: "\<forall>it \<in> set (normalizedItems d L). botName it \<noteq> [] \<and> ownerUsername it \<noteq> []"
    unfolding shape using item_names_nonempty by auto
  have len: "length (normalizedItems d L) =
      length (take L (botPosts d)) + length (take L (trades d)) + length (take L (auditLogs d))"
    unfolding shape by simp
  have run: "getCombinedActivity d L = take L (sortItems (normalizedItems d L))"
    if "take L (botPosts d) \<noteq> [] \<or> take L (trades d) \<noteq> [] \<or>
      (\<exists>lg \<in> set (take L (auditLogs d)). l_botId lg \<noteq> None)"
    using that by (intro getCombinedActivity_nonempty_ids) (auto simp: collect_empty_iff)
  have count: "length (getCombinedActivity d L) =
        min L (length (take L (botPosts d)) + length (take L (trades d)) +
               length (take L (auditLogs d)))"
    if "getCombinedActivity d L = take L (sortItems (normalizedItems d L))"
    unfolding that by (simp only: length_take length_sortItems len min.commute)
  have stop: "getCombinedActivity d L = []"
    if "take L (botPosts d) = [] \<and> take L (trades d) = [] \<and>
      (\<forall>lg \<in> set (take L (auditLogs d)). l_botId lg = None)"
    using that by (simp add: getCombinedActivity_def collect_empty_iff)
  have posts: "?P i" if i: "i < length (take L (botPosts d))" for i
  proof -
    let ?p = "take L (botPosts d) ! i"
    from i have "?p \<in> set (take L (botPosts d))" by (rule nth_mem)
    with bpresent have bp: "p_botId ?p \<in> b_id ` set (bots d) \<longrightarrow> map_of bm (p_botId ?p) \<noteq> None"
      by blast
    from i have it: "normalizedItems d L ! i = postItem bm um pm ?p"
      unfolding shape by (rule nth_three_maps(1))
    show ?thesis
      unfolding Let_def it
      by (rule postItem_resolved [OF bmiss bhit umiss uhit pmiss bp upresent])
  qed
  have trades: "?T i" if i: "i < length (take L (trades d))" for i
  proof -
    let ?t = "take L (trades d) ! i"
    from i have "?t \<in> set (take L (trades d))" by (rule nth_mem)
    with bpresent have bp: "t_botId ?t \<in> b_id ` set (bots d) \<longrightarrow> map_of bm (t_botId ?t) \<noteq> None"
      by blast
    from i have it: "normalizedItems d L ! (length (take L (botPosts d)) + i) =
        tradeItem bm um pm ?t"
      unfolding shape by (rule nth_three_maps(2))
    show ?thesis
      unfolding Let_def it
      by (rule tradeItem_resolved [OF bmiss bhit umiss uhit pmiss bp upresent])
  qed
  have logs: "?G i" if i: "i < length (take L (auditLogs d))" for i
  proof -
    let ?l = "take L (auditLogs d) ! i"
    from i have "?l \<in> set (take L (auditLogs d))" by (rule nth_mem)
    then have "\<forall>n. l_botId ?l = Some n \<longrightarrow> n \<in> {v. Some v \<in> l_botId ` set (take L (auditLogs d))}"
      by force
    with bpresent have bp: "\<forall>n. l_botId ?l = Some n \<and> n \<in> b_id ` set (bots d) \<longrightarrow>
        map_of bm n \<noteq> None"
      by blast
    from i have it: "normalizedItems d L !
        (length (take L (botPosts d)) + length (take L (trades d)) + i) = logItem bm um pm ?l"
      unfolding shape by (rule nth_three_maps(3))
    show ?thesis
      unfolding Let_def it
      by (rule logItem_resolved [OF bmiss bhit umiss uhit pmiss bp upresent])
  qed
  show ?thesis
    apply (intro conjI impI allI)
    subgoal by (rule run)
    subgoal by (rule ids)
    subgoal by (rule names)
    subgoal using run count by blast
    subgoal by (rule posts)
    subgoal by (rule trades)
    subgoal by (rule logs)
    subgoal by (rule stop, blast)
    done
qed

text \<open>
  Claim C1, amended, on the sample databases with limit 10: a post of a known bot, a
  trade of a bot without a row, a system log without a bot, a post whose owner has no
  row, and a log whose bot and acting user have no row.
\<close>

theorem combinedActivity_one_item_per_record_witness:
  "take 10 (botPosts demoDb) \<noteq> [] \<and>
   getCombinedActivity demoDb 10 = take 10 (sortItems (normalizedItems demoDb 10)) \<and>
   map (\<lambda>it. (item_type it, item_id it, createdAt it)) (normalizedItems demoDb 10) =
     [(js ''tweet'', js ''tweet-1'', Some 300), (js ''tweet'', js ''tweet-2'', None),
      (js ''trade'', js ''trade-1'', Some 200), (js ''system'', js ''log-1'', Some 100)] \<and>
   length (getCombinedActivity demoDb 10) = 4 \<and>
   p_botId (take 10 (botPosts demoDb) ! 0) \<in> b_id ` set (bots demoDb) \<and>
   botName (normalizedItems demoDb 10 ! 0) = js ''alpha'' \<and>
   ownerUsername (normalizedItems demoDb 10 ! 0) = js ''ann'' \<and>
   t_botId (take 10 (trades demoDb) ! 0) \<notin> b_id ` set (bots demoDb) \<and>
   botName (normalizedItems demoDb 10 ! 2) = js ''Unknown'' \<and>
   ownerUsername (normalizedItems demoDb 10 ! 2) = js ''Unknown'' \<and>
   l_botId (take 10 (auditLogs demoDb) ! 0) = None \<and>
   l_userId (take 10 (auditLogs demoDb) ! 0) = None \<and>
   botName (normalizedItems demoDb 10 ! 3) = js ''System'' \<and>
   ownerUsername (normalizedItems demoDb 10 ! 3) = js ''System'' \<and>
   take 10 (botPosts orphanDb) \<noteq> [] \<and>
   p_botId (take 10 (botPosts orphanDb) ! 0) \<in> b_id ` set (bots orphanDb) \<and>
   users orphanDb = [] \<and>
   botName (normalizedItems orphanDb 10 ! 0) = js ''beta'' \<and>
   ownerUsername (normalizedItems orphanDb 10 ! 0) = js ''Unknown'' \<and>
   l_botId (take 10 (auditLogs orphanDb) ! 0) = Some 8 \<and>
   8 \<notin> b_id ` set (bots orphanDb) \<and>
   l_userId (take 10 (auditLogs orphanDb) ! 0) = Some 6 \<and>
   botName (normalizedItems orphanDb 10 ! 1) = js ''System'' \<and>
   ownerUsername (normalizedItems orphanDb 10 ! 1) = js ''Unknown''"
proof -
  have h: "take 10 (botPosts demoDb) \<noteq> []" by code_simp
  have e: "map (\<lambda>p. (js ''tweet'', js ''tweet-'' @ numberToString (p_id p), p_createdAt p))
          (take 10 (botPosts demoDb)) @
        map (\<lambda>t. (js ''trade'', js ''trade-'' @ numberToString (t_id t), t_createdAt t))
          (take 10 (trades demoDb)) @
        map (\<lambda>l. (js ''system'', js ''log-'' @ numberToString (l_id l), l_createdAt l))
          (take 10 (auditLogs demoDb)) =
     [(js ''tweet'', js ''tweet-1'', Some 300), (js ''tweet'', js ''tweet-2'', None),
      (js ''trade'', js ''trade-1'', Some 200), (js ''system'', js ''log-1'', Some 100)]"
    by code_simp
  have n: "min 10 (length (take 10 (botPosts demoDb)) + length (take 10 (trades demoDb)) +
               length (take 10 (auditLogs demoDb))) = 4"
    by (simp add: demoDb_def)
  have nonempty: "js ''alpha'' \<noteq> []" "js ''ann'' \<noteq> []" "js ''beta'' \<noteq> []"
    by (simp_all add: js_def)
  have rows: "length (take 10 (botPosts demoDb)) = 2" "length (take 10 (trades demoDb)) = 1"
    "length (take 10 (auditLogs demoDb)) = 1"
    "p_botId (take 10 (botPosts demoDb) ! 0) = 1" "t_botId (take 10 (trades demoDb) ! 0) = 9"
    "l_botId (take 10 (auditLogs demoDb) ! 0) = None"
    "l_userId (take 10 (auditLogs demoDb) ! 0) = None"
    "bots demoDb = [\<lparr> b_id = 1, b_botName = js ''alpha'', b_userId = 5 \<rparr>]"
    "users demoDb = [\<lparr> u_id = 5, u_username = js ''ann'' \<rparr>]"
    by (simp_all add: demoDb_def)
  have orows: "length (take 10 (botPosts orphanDb)) = 1" "length (take 10 (trades orphanDb)) = 0"
    "length (take 10 (auditLogs orphanDb)) = 1"
    "p_botId (take 10 (botPosts orphanDb) ! 0) = 2"
    "l_botId (take 10 (auditLogs orphanDb) ! 0) = Some 8"
    "l_userId (take 10 (auditLogs orphanDb) ! 0) = Some 6"
    "bots orphanDb = [\<lparr> b_id = 2, b_botName = js ''beta'', b_userId = 6 \<rparr>]"
    "users orphanDb = []"
    by (simp_all add: orphanDb_def)
  from h have h': "take 10 (botPosts demoDb) \<noteq> [] \<or> take 10 (trades demoDb) \<noteq> [] \<or>
      (\<exists>lg \<in> set (take 10 (auditLogs demoDb)). l_botId lg \<noteq> None)"
    by (rule disjI1)
  note demo = combinedActivity_one_item_per_record [of 10 demoDb, THEN conjunct1, THEN mp, OF h']
  note run = demo [THEN conjunct1]
  note m = demo [THEN conjunct2, THEN conjunct1]
  note c = demo [THEN conjunct2, THEN conjunct2, THEN conjunct2, THEN conjunct1]
  note rest = demo [THEN conjunct2, THEN conjunct2, THEN conjunct2, THEN conjunct2]
  note post0 = rest [THEN conjunct1, THEN spec, of 0]
  note trade0 = rest [THEN conjunct2, THEN conjunct1, THEN spec, of 0]
  note log0 = rest [THEN conjunct2, THEN conjunct2, THEN spec, of 0]
  from m e have m': "map (\<lambda>it. (item_type it, item_id it, createdAt it)) (normalizedItems demoDb 10) =
     [(js ''tweet'', js ''tweet-1'', Some 300), (js ''tweet'', js ''tweet-2'', None),
      (js ''trade'', js ''trade-1'', Some 200), (js ''system'', js ''log-1'', Some 100)]"
    by (rule trans)
  from c n have c': "length (getCombinedActivity demoDb 10) = 4"
    by (rule trans)
  from post0 nonempty have known:
    "p_botId (take 10 (botPosts demoDb) ! 0) \<in> b_id ` set (bots demoDb)"
    "botName (normalizedItems demoDb 10 ! 0) = js ''alpha''"
    "ownerUsername (normalizedItems demoDb 10 ! 0) = js ''ann''"
    by (simp_all add: rows Let_def del: length_take nth_take)
  from trade0 have unknown:
    "t_botId (take 10 (trades demoDb) ! 0) \<notin> b_id ` set (bots demoDb)"
    "botName (normalizedItems demoDb 10 ! 2) = js ''Unknown''"
    "ownerUsername (normalizedItems demoDb 10 ! 2) = js ''Unknown''"
    by (simp_all add: rows Let_def del: length_take nth_take)
  from log0 have system:
    "l_botId (take 10 (auditLogs demoDb) ! 0) = None"
    "l_userId (take 10 (auditLogs demoDb) ! 0) = None"
    "botName (normalizedItems demoDb 10 ! 3) = js ''System''"
    "ownerUsername (normalizedItems demoDb 10 ! 3) = js ''System''"
    by (simp_all add: rows Let_def del: length_take nth_take)
  have g: "take 10 (botPosts orphanDb) \<noteq> []" by code_simp
  then have g': "take 10 (botPosts orphanDb) \<noteq> [] \<or> take 10 (trades orphanDb) \<noteq> [] \<or>
      (\<exists>lg \<in> set (take 10 (auditLogs orphanDb)). l_botId lg \<noteq> None)"
    by (rule disjI1)
  note orphan = combinedActivity_one_item_per_record [of 10 orphanDb, THEN conjunct1, THEN mp, OF g',
      THEN conjunct2, THEN conjunct2, THEN conjunct2, THEN conjunct2]
  note opost0 = orphan [THEN conjunct1, THEN spec, of 0]
  note olog0 = orphan [THEN conjunct2, THEN conjunct2, THEN spec, of 0]
  from opost0 nonempty have ownerless:
    "p_botId (take 10 (botPosts orphanDb) ! 0) \<in> b_id ` set (bots orphanDb)"
    "users orphanDb = []"
    "botName (normalizedItems orphanDb 10 ! 0) = js ''beta''"
    "ownerUsername (normalizedItems orphanDb 10 ! 0) = js ''Unknown''"
    by (simp_all add: orows Let_def del: length_take nth_take)
  from olog0 have dangling:
    "l_botId (take 10 (auditLogs orphanDb) ! 0) = Some 8"
    "8 \<notin> b_id ` set (bots orphanDb)"
    "l_userId (take 10 (auditLogs orphanDb) ! 0) = Some 6"
    "botName (normalizedItems orphanDb 10 ! 1) = js ''System''"
    "ownerUsername (normalizedItems orphanDb 10 ! 1) = js ''Unknown''"
    by (simp_all add: orows Let_def del: length_take nth_take)
  from h run m' c' known unknown system g ownerless dangling show ?thesis
    by (intro conjI)
qed

subsection \<open>Item identifiers\<close>

text \<open>
  Claim C2 as stated fails for audit logs: the item of type \<open>system\<close> made from log 1
  has the identifier \<open>log-1\<close>, not \<open>system-1\<close>.
\<close>

theorem combinedActivity_log_id_prefix:
  "map (\<lambda>it. (item_type it, item_id it)) (getCombinedActivity demoDb 10) ! 2 =
     (js ''system'', js ''log-1'') \<and>
   js ''log-1'' \<noteq> js ''system'' @ js ''-'' @ numberToString 1"
  by code_simp

text \<open>
  Claim C2, amended. When the identifiers within each of the three tables are pairwise
  distinct, the identifiers of the returned items are pairwise distinct, and each is
  \<open>tweet-n\<close> for a post \<open>n\<close> (type \<open>tweet\<close>), \<open>trade-n\<close> for a trade \<open>n\<close> (type
  \<open>trade\<close>) or \<open>log-n\<close> for an audit log \<open>n\<close> (type \<open>system\<close>).
\<close>

theorem combinedActivity_ids_unique:
  assumes "distinct (map p_id (botPosts d))" "distinct (map t_id (trades d))"
    "distinct (map l_id (auditLogs d))"
  shows "distinct (map item_id (getCombinedActivity d L)) \<and>
    (\<forall>it \<in> set (getCombinedActivity d L).
       (\<exists>p \<in> set (botPosts d). item_type it = js ''tweet'' \<and>
            item_id it = js ''tweet-'' @ numberToString (p_id p)) \<or>
       (\<exists>t \<in> set (trades d). item_type it = js ''trade'' \<and>
            item_id it = js ''trade-'' @ numberToString (t_id t)) \<or>
       (\<exists>l \<in> set (auditLogs d). item_type it = js ''system'' \<and>
            item_id it = js ''log-'' @ numberToString (l_id l)))"
proof -
  obtain bm um pm where shape: "normalizedItems d L =
       map (postItem bm um pm) (take L (botPosts d)) @
       map (tradeItem bm um pm) (take L (trades d)) @
       map (logItem bm um pm) (take L (auditLogs d))"
    by (rule normalizedItems_shape [of d L])
  from assms have "distinct (map p_id (take L (botPosts d)))"
    "distinct (map t_id (take L (trades d)))" "distinct (map l_id (take L (auditLogs d)))"
    by (simp_all add: distinct_map_take)
  then have "distinct (map item_id (normalizedItems d L))"
    unfolding shape by (rule distinct_ids_parts)
  then have "distinct (map item_id (take L (sortItems (normalizedItems d L))))"
    by (simp add: sortItems_def distinct_map_sort_key distinct_map_take)
  then have dist: "distinct (map item_id (getCombinedActivity d L))"
    by (simp add: getCombinedActivity_def)
  have form: "(\<exists>p \<in> set (botPosts d). item_type it = js ''tweet'' \<and>
            item_id it = js ''tweet-'' @ numberToString (p_id p)) \<or>
       (\<exists>t \<in> set (trades d). item_type it = js ''trade'' \<and>
            item_id it = js ''trade-'' @ numberToString (t_id t)) \<or>
       (\<exists>l \<in> set (auditLogs d). item_type it = js ''system'' \<and>
            item_id it = js ''log-'' @ numberToString (l_id l))"
    if "it \<in> set (getCombinedActivity d L)" for it
  proof -
    from that getCombinedActivity_subset have "it \<in> set (normalizedItems d L)" by blast
    then consider p where "p \<in> set (take L (botPosts d))" "it = postItem bm um pm p"
      | t where "t \<in> set (take L (trades d))" "it = tradeItem bm um pm t"
      | l where "l \<in> set (take L (auditLogs d))" "it = logItem bm um pm l"
      unfolding shape by auto
    then show ?thesis
    proof cases
      case 1
      then have "p \<in> set (botPosts d)" by (meson in_set_takeD)
      with 1 show ?thesis by auto
    next
      case 2
      then have "t \<in> set (trades d)" by (meson in_set_takeD)
      with 2 show ?thesis by auto
    next
      case 3
      then have "l \<in> set (auditLogs d)" by (meson in_set_takeD)
      with 3 show ?thesis by auto
    qed
  qed
  from dist form show ?thesis by blast
qed

lemma demo_distinct:
  "distinct (map p_id (botPosts demoDb))" "distinct (map t_id (trades demoDb))"
  "distinct (map l_id (auditLogs demoDb))"
  by (simp_all add: demoDb_def)

text \<open>Claim C2, amended, on the sample database with limit 10.\<close>

theorem combinedActivity_ids_unique_witness:
  "distinct (map p_id (botPosts demoDb)) \<and> distinct (map t_id (trades demoDb)) \<and>
   distinct (map l_id (auditLogs demoDb)) \<and>
   distinct (map item_id (getCombinedActivity demoDb 10)) \<and>
   map item_id (getCombinedActivity demoDb 10) =
     [js ''tweet-1'', js ''trade-1'', js ''log-1'', js ''tweet-2'']"
proof -
  have e: "map item_id (getCombinedActivity demoDb 10) =
     [js ''tweet-1'', js ''trade-1'', js ''log-1'', js ''tweet-2'']"
    by code_simp
  from combinedActivity_ids_unique [OF demo_distinct, of 10] e demo_distinct show ?thesis by simp
qed



section \<open>Properties of the secret codec\<close>

subsection \<open>The blob format\<close>

lemma hexDigit_cases: "n < 16 \<Longrightarrow> unat (hexDigit n) = (if n < 10 then 48 + n else 87 + n)"
  unfolding hexDigit_def by (simp only: unat_of_nat) simp

lemma hexVal_hexDigit: "n < 16 \<Longrightarrow> hexVal (hexDigit n) = Some n"
  by (simp add: hexVal_def hexDigit_cases Let_def)

lemma hexDigit_not_colon: "n < 16 \<Longrightarrow> hexDigit n \<noteq> 58"
proof
  assume "n < 16" "hexDigit n = 58"
  then have "unat (hexDigit n) = 58" by simp
  with \<open>n < 16\<close> show False by (simp add: hexDigit_cases split: if_splits)
qed

lemma byte_nibbles: "word_of_nat (16 * (unat b div 16) + unat b mod 16) = (b :: byte)"
  by simp

lemma hexDecode_hexEncode: "hexDecode (hexEncode bs) = bs"
proof (induction bs)
  case Nil
  show ?case by (simp add: hexEncode_def)
next
  case (Cons b bs)
  have hi: "unat b div 16 < 16"
    using unsigned_less [of b, where 'a = nat] by simp
  have step: "hexEncode (b # bs) = hexDigit (unat b div 16) # hexDigit (unat b mod 16) # hexEncode bs"
    by (simp add: hexEncode_def)
  show ?case
    unfolding step using Cons.IH hi
    by (simp add: hexVal_hexDigit del: of_nat_add of_nat_mult)
qed

lemma colon_notin_hexEncode: "58 \<notin> set (hexEncode bs)"
proof -
  have hi: "unat b div 16 < 16" for b :: byte
    using unsigned_less [of b, where 'a = nat] by simp
  show ?thesis
    unfolding hexEncode_def using hi by (auto dest: hexDigit_not_colon [rotated] simp: hexDigit_not_colon)
qed

lemma even_length_hexEncode: "even (length (hexEncode bs))"
  unfolding hexEncode_def by (induction bs) simp_all

lemma splitOn_nonempty: "splitOn sep xs \<noteq> []"
  by (induction xs) (auto split: list.splits)

lemma splitOn_no_sep: "sep \<notin> set xs \<Longrightarrow> splitOn sep xs = [xs]"
  by (induction xs) auto

lemma splitOn_segment: "sep \<notin> set xs \<Longrightarrow> splitOn sep (xs @ sep # ys) = xs # splitOn sep ys"
  by (induction xs) auto

lemma js_colon: "js '':'' = [58]"
  by (simp add: js_def)

lemma split_blob:
  "splitOn 58 (hexEncode a @ js '':'' @ hexEncode b @ js '':'' @ hexEncode c) =
     [hexEncode a, hexEncode b, hexEncode c]"
  by (simp add: js_colon splitOn_segment splitOn_no_sep colon_notin_hexEncode)

lemma decrypt_blob:
  "getEncryptionKey lib e = Inr key \<Longrightarrow>
   decrypt lib e (hexEncode iv @ js '':'' @ hexEncode tag @ js '':'' @ hexEncode ct) =
     (case gcmOpen lib key iv tag ct of
        Inl UnableToAuthenticate \<Rightarrow> Inl AuthenticationError
      | Inl InvalidParameter \<Rightarrow> Inl CryptoError
      | Inr decrypted \<Rightarrow> Inr (utf8Decode decrypted))"
  by (simp add: decrypt_def split_blob hexDecode_hexEncode even_length_hexEncode)

lemma decrypt_format_iff:
  "getEncryptionKey lib e = Inr key \<Longrightarrow>
     decrypt lib e s = Inl FormatError \<longleftrightarrow> length (splitOn 58 s) \<noteq> 3"
  by (auto simp: decrypt_def Let_def split: list.splits sum.splits decipherFailure.splits)

subsection \<open>Key derivation and error propagation\<close>

lemma key_cases:
  "getEncryptionKey lib e =
     (if SESSION_SECRET e = None \<or> SESSION_SECRET e = Some []
      then (if NODE_ENV e = Some (js ''production'') then Inl ConfigurationError
            else Inr (sha256Digest lib (utf8Encode (js ''moltcook-dev-only-key''))))
      else Inr (sha256Digest lib (utf8Encode (the (SESSION_SECRET e)))))"
  by (simp add: getEncryptionKey_def split: option.splits)

lemma decrypt_key_error: "getEncryptionKey lib e = Inl err \<Longrightarrow> decrypt lib e s = Inl err"
  by (simp add: decrypt_def)

lemma encrypt_key_error: "getEncryptionKey lib e = Inl err \<Longrightarrow> encrypt lib e iv t = Inl err"
  by (simp add: encrypt_def)

lemma decrypt_three:
  "getEncryptionKey lib e = Inr key \<Longrightarrow> splitOn 58 s = [p0, p1, p2] \<Longrightarrow>
   decrypt lib e s =
     (if odd (length p2) then Inl CryptoError
      else (case gcmOpen lib key (hexDecode p0) (hexDecode p1) (hexDecode p2) of
        Inl UnableToAuthenticate \<Rightarrow> Inl AuthenticationError
      | Inl InvalidParameter \<Rightarrow> Inl CryptoError
      | Inr decrypted \<Rightarrow> Inr (utf8Decode decrypted)))"
  by (simp add: decrypt_def)

lemma demo_dev_key: "getEncryptionKey demoCrypto devEnv = Inr [109, 111]"
  by (simp add: getEncryptionKey_def demoCrypto_def devEnv_def js_def
      isHighSurrogate_def isLowSurrogate_def encodeCodePoint_def)

lemma demo_secret_key: "getEncryptionKey demoCrypto secretEnv = Inr [115, 51]"
  by (simp add: getEncryptionKey_def demoCrypto_def secretEnv_def js_def
      isHighSurrogate_def isLowSurrogate_def encodeCodePoint_def)

lemma demo_prod_key: "getEncryptionKey demoCrypto prodEnv = Inl ConfigurationError"
  by (simp add: getEncryptionKey_def prodEnv_def)

subsection \<open>Tampered blobs\<close>

text \<open>
  Claim C5. For a blob of three colon-separated segments (the ciphertext segment of
  even length, as hex text is) whose tag does not verify under the derived key,
  \<open>decrypt\<close> ends with \<open>AuthenticationError\<close>; it returns no plaintext.
\<close>

theorem decrypt_rejects_unverified:
  assumes "getEncryptionKey lib e = Inr key"
    and "splitOn 58 blob = [ivHex, tagHex, encrypted]"
    and "even (length encrypted)"
    and "gcmOpen lib key (hexDecode ivHex) (hexDecode tagHex) (hexDecode encrypted) =
           Inl UnableToAuthenticate"
  shows "decrypt lib e blob = Inl AuthenticationError \<and> (\<forall>plain. decrypt lib e blob \<noteq> Inr plain)"
  using assms by (simp add: decrypt_three)

lemma split_demo: "splitOn 58 (js ''01:68:4547'') = [js ''01'', js ''68'', js ''4547'']"
  by (simp add: js_def)

lemma hex_demo: "hexDecode (js ''01'') = [1]" "hexDecode (js ''68'') = [104]"
  "hexDecode (js ''4547'') = [69, 71]" "hexDecode (js ''4546'') = [69, 70]"
  by (simp_all add: js_def hexVal_def)

text \<open>
  Claim C5 on a concrete blob: \<open>01:68:4546\<close> encrypts \<open>hi\<close>; with the last ciphertext
  byte changed the tag no longer verifies.
\<close>

theorem decrypt_rejects_unverified_witness:
  "getEncryptionKey demoCrypto devEnv = Inr [109, 111] \<and>
   encrypt demoCrypto devEnv [1] (js ''hi'') = Inr (js ''01:68:4546'') \<and>
   splitOn 58 (js ''01:68:4547'') = [js ''01'', js ''68'', js ''4547''] \<and>
   even (length (js ''4547'')) \<and>
   gcmOpen demoCrypto [109, 111] (hexDecode (js ''01'')) (hexDecode (js ''68''))
     (hexDecode (js ''4547'')) = Inl UnableToAuthenticate \<and>
   decrypt demoCrypto devEnv (js ''01:68:4547'') = Inl AuthenticationError"
proof -
  have enc: "encrypt demoCrypto devEnv [1] (js ''hi'') = Inr (js ''01:68:4546'')"
    by (simp add: encrypt_def demo_dev_key)
       (simp add: demoCrypto_def demoPad_def js_def isHighSurrogate_def isLowSurrogate_def
          encodeCodePoint_def hexEncode_def hexDigit_def)
  have ev: "even (length (js ''4547''))" by (simp add: js_def)
  have fail: "gcmOpen demoCrypto [109, 111] (hexDecode (js ''01'')) (hexDecode (js ''68''))
     (hexDecode (js ''4547'')) = Inl UnableToAuthenticate"
    by (simp add: hex_demo) (simp add: demoCrypto_def demoPad_def)
  from decrypt_rejects_unverified [OF demo_dev_key split_demo ev fail] demo_dev_key enc split_demo ev fail
  show ?thesis by simp
qed

subsection \<open>Malformed blobs\<close>

text \<open>
  Claim C6 as stated fails where key derivation fails: in production without a secret
  a blob of two segments ends with \<open>ConfigurationError\<close>, not \<open>FormatError\<close>.
\<close>

theorem decrypt_configuration_error_first:
  "length (splitOn 58 (js ''a:b'')) = 2 \<and>
   decrypt demoCrypto prodEnv (js ''a:b'') = Inl ConfigurationError \<and>
   decrypt demoCrypto prodEnv (js ''a:b'') \<noteq> Inl FormatError"
  by (simp add: decrypt_key_error [OF demo_prod_key]) (simp add: js_def)

text \<open>
  Claim C6, amended. Whenever key derivation succeeds (a non-empty secret is
  configured, or the mode is not production), \<open>decrypt\<close> ends with \<open>FormatError\<close> if and
  only if splitting the input at the colons does not give exactly three segments.
  Without a secret in production it ends with \<open>ConfigurationError\<close> for every input.
\<close>

theorem decrypt_format_error_iff:
  "((SESSION_SECRET e \<noteq> None \<and> SESSION_SECRET e \<noteq> Some []) \<or>
      NODE_ENV e \<noteq> Some (js ''production'') \<longrightarrow>
      (decrypt lib e s = Inl FormatError \<longleftrightarrow> length (splitOn 58 s) \<noteq> 3)) \<and>
   ((SESSION_SECRET e = None \<or> SESSION_SECRET e = Some []) \<and>
      NODE_ENV e = Some (js ''production'') \<longrightarrow>
      decrypt lib e s = Inl ConfigurationError)"
proof (intro conjI impI)
  assume "(SESSION_SECRET e \<noteq> None \<and> SESSION_SECRET e \<noteq> Some []) \<or>
      NODE_ENV e \<noteq> Some (js ''production'')"
  then have "\<exists>key. getEncryptionKey lib e = Inr key"
    by (auto simp: key_cases)
  then obtain key where "getEncryptionKey lib e = Inr key" ..
  then show "decrypt lib e s = Inl FormatError \<longleftrightarrow> length (splitOn 58 s) \<noteq> 3"
    by (rule decrypt_format_iff)
next
  assume "(SESSION_SECRET e = None \<or> SESSION_SECRET e = Some []) \<and>
      NODE_ENV e = Some (js ''production'')"
  then have "getEncryptionKey lib e = Inl ConfigurationError"
    by (auto simp: key_cases)
  then show "decrypt lib e s = Inl ConfigurationError"
    by (rule decrypt_key_error)
qed

text \<open>
  Claim C6, amended, on blobs of two, four and three segments under a configured
  secret, and on a blob of four segments in production without a secret.
\<close>

theorem decrypt_format_error_iff_witness:
  "SESSION_SECRET secretEnv \<noteq> None \<and> SESSION_SECRET secretEnv \<noteq> Some [] \<and>
   length (splitOn 58 (js ''a:b'')) = 2 \<and>
   decrypt demoCrypto secretEnv (js ''a:b'') = Inl FormatError \<and>
   length (splitOn 58 (js ''a:b:c:d'')) = 4 \<and>
   decrypt demoCrypto secretEnv (js ''a:b:c:d'') = Inl FormatError \<and>
   length (splitOn 58 (js ''01:68:4546'')) = 3 \<and>
   decrypt demoCrypto secretEnv (js ''01:68:4546'') \<noteq> Inl FormatError \<and>
   SESSION_SECRET prodEnv = None \<and> NODE_ENV prodEnv = Some (js ''production'') \<and>
   decrypt demoCrypto prodEnv (js ''a:b:c:d'') = Inl ConfigurationError"
proof -
  have s: "SESSION_SECRET secretEnv \<noteq> None \<and> SESSION_SECRET secretEnv \<noteq> Some []"
    by (simp add: secretEnv_def js_def)
  have p: "SESSION_SECRET prodEnv = None \<and> NODE_ENV prodEnv = Some (js ''production'')"
    by (simp add: prodEnv_def)
  have l: "length (splitOn 58 (js ''a:b'')) = 2" "length (splitOn 58 (js ''a:b:c:d'')) = 4"
    "length (splitOn 58 (js ''01:68:4546'')) = 3"
    by (simp_all add: js_def)
  from s p l
    decrypt_format_error_iff [of secretEnv demoCrypto "js ''a:b''"]
    decrypt_format_error_iff [of secretEnv demoCrypto "js ''a:b:c:d''"]
    decrypt_format_error_iff [of secretEnv demoCrypto "js ''01:68:4546''"]
    decrypt_format_error_iff [of prodEnv demoCrypto "js ''a:b:c:d''"]
  show ?thesis by simp
qed

subsection \<open>Key derivation\<close>

text \<open>
  Claim C7. With a (non-empty) secret configured, the key is the digest of the secret,
  and so the same in every environment with that secret. Without a secret, key
  derivation, \<open>encrypt\<close> and \<open>decrypt\<close> end with \<open>ConfigurationError\<close> in production,
  and outside production the key is the digest of the fixed development constant.
\<close>

theorem key_derivation:
  "(\<forall>secret. SESSION_SECRET e = Some secret \<and> secret \<noteq> [] \<longrightarrow>
      getEncryptionKey lib e = Inr (sha256Digest lib (utf8Encode secret)) \<and>
      (\<forall>e' :: env. SESSION_SECRET e' = Some secret \<longrightarrow> getEncryptionKey lib e' = getEncryptionKey lib e)) \<and>
   (SESSION_SECRET e = None \<and> NODE_ENV e = Some (js ''production'') \<longrightarrow>
      getEncryptionKey lib e = Inl ConfigurationError \<and>
      encrypt lib e iv text = Inl ConfigurationError \<and>
      decrypt lib e blob = Inl ConfigurationError) \<and>
   (SESSION_SECRET e = None \<and> NODE_ENV e \<noteq> Some (js ''production'') \<longrightarrow>
      getEncryptionKey lib e = Inr (sha256Digest lib (utf8Encode (js ''moltcook-dev-only-key''))))"
proof (intro conjI allI impI)
  fix secret
  assume a: "SESSION_SECRET e = Some secret \<and> secret \<noteq> []"
  then show "getEncryptionKey lib e = Inr (sha256Digest lib (utf8Encode secret))"
    by (simp add: key_cases)
  fix e' :: env
  assume "SESSION_SECRET e' = Some secret"
  with a show "getEncryptionKey lib e' = getEncryptionKey lib e"
    by (simp add: key_cases)
next
  assume a: "SESSION_SECRET e = None \<and> NODE_ENV e = Some (js ''production'')"
  then show k: "getEncryptionKey lib e = Inl ConfigurationError"
    by (simp add: key_cases)
  from k show "encrypt lib e iv text = Inl ConfigurationError"
    by (rule encrypt_key_error)
  from k show "decrypt lib e blob = Inl ConfigurationError"
    by (rule decrypt_key_error)
next
  assume "SESSION_SECRET e = None \<and> NODE_ENV e \<noteq> Some (js ''production'')"
  then show "getEncryptionKey lib e = Inr (sha256Digest lib (utf8Encode (js ''moltcook-dev-only-key'')))"
    by (simp add: key_cases)
qed

text \<open>Claim C7 on the three sample environments.\<close>

theorem key_derivation_witness:
  "SESSION_SECRET secretEnv = Some (js ''s3cret'') \<and> js ''s3cret'' \<noteq> [] \<and>
   getEncryptionKey demoCrypto secretEnv = Inr (sha256Digest demoCrypto (utf8Encode (js ''s3cret''))) \<and>
   SESSION_SECRET (secretEnv \<lparr> NODE_ENV := None \<rparr>) = Some (js ''s3cret'') \<and>
   getEncryptionKey demoCrypto (secretEnv \<lparr> NODE_ENV := None \<rparr>) =
     getEncryptionKey demoCrypto secretEnv \<and>
   SESSION_SECRET prodEnv = None \<and> NODE_ENV prodEnv = Some (js ''production'') \<and>
   getEncryptionKey demoCrypto prodEnv = Inl ConfigurationError \<and>
   encrypt demoCrypto prodEnv [1] (js ''hi'') = Inl ConfigurationError \<and>
   decrypt demoCrypto prodEnv (js ''01:68:4546'') = Inl ConfigurationError \<and>
   SESSION_SECRET devEnv = None \<and> NODE_ENV devEnv \<noteq> Some (js ''production'') \<and>
   getEncryptionKey demoCrypto devEnv =
     Inr (sha256Digest demoCrypto (utf8Encode (js ''moltcook-dev-only-key'')))"
proof -
  have s: "SESSION_SECRET secretEnv = Some (js ''s3cret'')" "js ''s3cret'' \<noteq> []"
    "SESSION_SECRET (secretEnv \<lparr> NODE_ENV := None \<rparr>) = Some (js ''s3cret'')"
    by (simp_all add: secretEnv_def js_def)
  have p: "SESSION_SECRET prodEnv = None" "NODE_ENV prodEnv = Some (js ''production'')"
    by (simp_all add: prodEnv_def)
  have d: "SESSION_SECRET devEnv = None" "NODE_ENV devEnv \<noteq> Some (js ''production'')"
    by (simp_all add: devEnv_def js_def)
  from s p d
    key_derivation [of secretEnv demoCrypto "[1]" "js ''hi''" "js ''01:68:4546''"]
    key_derivation [of prodEnv demoCrypto "[1]" "js ''hi''" "js ''01:68:4546''"]
    key_derivation [of devEnv demoCrypto "[1]" "js ''hi''" "js ''01:68:4546''"]
  show ?thesis by blast
qed

text \<open>
  Claim C10. With the secret set to the empty string, key derivation, \<open>encrypt\<close> and
  \<open>decrypt\<close> behave as without a secret: \<open>ConfigurationError\<close> in production, and
  outside production the digest of the development constant, not of the empty string.
\<close>

theorem empty_secret_as_absent:
  "SESSION_SECRET e = Some [] \<longrightarrow>
     getEncryptionKey lib e = getEncryptionKey lib (e \<lparr> SESSION_SECRET := None \<rparr>) \<and>
     encrypt lib e iv text = encrypt lib (e \<lparr> SESSION_SECRET := None \<rparr>) iv text \<and>
     decrypt lib e blob = decrypt lib (e \<lparr> SESSION_SECRET := None \<rparr>) blob \<and>
     (NODE_ENV e = Some (js ''production'') \<longrightarrow>
        getEncryptionKey lib e = Inl ConfigurationError \<and>
        encrypt lib e iv text = Inl ConfigurationError \<and>
        decrypt lib e blob = Inl ConfigurationError) \<and>
     (NODE_ENV e \<noteq> Some (js ''production'') \<longrightarrow>
        getEncryptionKey lib e =
          Inr (sha256Digest lib (utf8Encode (js ''moltcook-dev-only-key''))))"
proof
  assume a: "SESSION_SECRET e = Some []"
  then have k: "getEncryptionKey lib e = getEncryptionKey lib (e \<lparr> SESSION_SECRET := None \<rparr>)"
    by (simp add: key_cases)
  then have same: "encrypt lib e iv text = encrypt lib (e \<lparr> SESSION_SECRET := None \<rparr>) iv text"
    "decrypt lib e blob = decrypt lib (e \<lparr> SESSION_SECRET := None \<rparr>) blob"
    by (simp_all add: encrypt_def decrypt_def)
  have prod: "getEncryptionKey lib e = Inl ConfigurationError \<and>
           encrypt lib e iv text = Inl ConfigurationError \<and>
           decrypt lib e blob = Inl ConfigurationError"
    if "NODE_ENV e = Some (js ''production'')"
  proof -
    from a that have "getEncryptionKey lib e = Inl ConfigurationError"
      by (simp add: key_cases)
    then show ?thesis
      by (simp add: encrypt_key_error decrypt_key_error)
  qed
  have dev: "getEncryptionKey lib e =
             Inr (sha256Digest lib (utf8Encode (js ''moltcook-dev-only-key'')))"
    if "NODE_ENV e \<noteq> Some (js ''production'')"
    using a that by (simp add: key_cases)
  from k same prod dev
  show "getEncryptionKey lib e = getEncryptionKey lib (e \<lparr> SESSION_SECRET := None \<rparr>) \<and>
     encrypt lib e iv text = encrypt lib (e \<lparr> SESSION_SECRET := None \<rparr>) iv text \<and>
     decrypt lib e blob = decrypt lib (e \<lparr> SESSION_SECRET := None \<rparr>) blob \<and>
     (NODE_ENV e = Some (js ''production'') \<longrightarrow>
        getEncryptionKey lib e = Inl ConfigurationError \<and>
        encrypt lib e iv text = Inl ConfigurationError \<and>
        decrypt lib e blob = Inl ConfigurationError) \<and>
     (NODE_ENV e \<noteq> Some (js ''production'') \<longrightarrow>
        getEncryptionKey lib e =
          Inr (sha256Digest lib (utf8Encode (js ''moltcook-dev-only-key''))))"
    by blast
qed

text \<open>
  Claim C10 on the production and the development environment, each with the secret
  set to the empty string.
\<close>

theorem empty_secret_as_absent_witness:
  "SESSION_SECRET (prodEnv \<lparr> SESSION_SECRET := Some [] \<rparr>) = Some [] \<and>
   NODE_ENV (prodEnv \<lparr> SESSION_SECRET := Some [] \<rparr>) = Some (js ''production'') \<and>
   getEncryptionKey demoCrypto (prodEnv \<lparr> SESSION_SECRET := Some [] \<rparr>) = Inl ConfigurationError \<and>
   encrypt demoCrypto (prodEnv \<lparr> SESSION_SECRET := Some [] \<rparr>) [1] (js ''hi'') =
     Inl ConfigurationError \<and>
   decrypt demoCrypto (prodEnv \<lparr> SESSION_SECRET := Some [] \<rparr>) (js ''01:68:4546'') =
     Inl ConfigurationError \<and>
   SESSION_SECRET (devEnv \<lparr> SESSION_SECRET := Some [] \<rparr>) = Some [] \<and>
   NODE_ENV (devEnv \<lparr> SESSION_SECRET := Some [] \<rparr>) \<noteq> Some (js ''production'') \<and>
   getEncryptionKey demoCrypto (devEnv \<lparr> SESSION_SECRET := Some [] \<rparr>) =
     Inr (sha256Digest demoCrypto (utf8Encode (js ''moltcook-dev-only-key''))) \<and>
   encrypt demoCrypto (devEnv \<lparr> SESSION_SECRET := Some [] \<rparr>) [1] (js ''hi'') =
     encrypt demoCrypto (devEnv \<lparr> SESSION_SECRET := Some [], SESSION_SECRET := None \<rparr>) [1] (js ''hi'')"
proof -
  have p: "SESSION_SECRET (prodEnv \<lparr> SESSION_SECRET := Some [] \<rparr>) = Some []"
    "NODE_ENV (prodEnv \<lparr> SESSION_SECRET := Some [] \<rparr>) = Some (js ''production'')"
    by (simp_all add: prodEnv_def)
  have d: "SESSION_SECRET (devEnv \<lparr> SESSION_SECRET := Some [] \<rparr>) = Some []"
    "NODE_ENV (devEnv \<lparr> SESSION_SECRET := Some [] \<rparr>) \<noteq> Some (js ''production'')"
    by (simp_all add: devEnv_def js_def)
  from p d
    empty_secret_as_absent [of "prodEnv \<lparr> SESSION_SECRET := Some [] \<rparr>" demoCrypto "[1]" "js ''hi''" "js ''01:68:4546''"]
    empty_secret_as_absent [of "devEnv \<lparr> SESSION_SECRET := Some [] \<rparr>" demoCrypto "[1]" "js ''hi''" "js ''01:68:4546''"]
  show ?thesis by blast
qed

subsection \<open>UTF-8 decoding inverts encoding on well-formed strings\<close>

lemma unat_byte: "n < 256 \<Longrightarrow> unat (word_of_nat n :: byte) = n"
  by (simp only: unat_of_nat) simp

lemma unat_unit: "n < 65536 \<Longrightarrow> unat (word_of_nat n :: 16 word) = n"
  by (simp only: unat_of_nat) simp

lemma run1: "b < 128 \<Longrightarrow> utf8Run Idle (word_of_nat b # bs) = b # utf8Run Idle bs"
  by (simp add: unat_byte utf8Lead_def del: of_nat_add of_nat_mult)

lemma run2:
  assumes "194 \<le> b1" "b1 \<le> 223" "128 \<le> b2" "b2 \<le> 191"
  shows "utf8Run Idle (word_of_nat b1 # word_of_nat b2 # bs) =
           ((b1 - 192) * 64 + (b2 - 128)) # utf8Run Idle bs"
proof -
  from assms have u: "unat (word_of_nat b1 :: byte) = b1" "unat (word_of_nat b2 :: byte) = b2"
    by (simp_all add: unat_byte)
  from assms show ?thesis
    by (simp add: u utf8Lead_def del: of_nat_add of_nat_mult)
qed

lemma run3:
  assumes "224 \<le> b1" "b1 \<le> 239" "128 \<le> b2" "b2 \<le> 191" "128 \<le> b3" "b3 \<le> 191"
    and "b1 = 224 \<Longrightarrow> 160 \<le> b2" and "b1 = 237 \<Longrightarrow> b2 \<le> 159"
  shows "utf8Run Idle (word_of_nat b1 # word_of_nat b2 # word_of_nat b3 # bs) =
           (((b1 - 224) * 64 + (b2 - 128)) * 64 + (b3 - 128)) # utf8Run Idle bs"
proof -
  from assms have u: "unat (word_of_nat b1 :: byte) = b1" "unat (word_of_nat b2 :: byte) = b2"
    "unat (word_of_nat b3 :: byte) = b3"
    by (simp_all add: unat_byte)
  from assms show ?thesis
    by (simp add: u utf8Lead_def del: of_nat_add of_nat_mult)
qed

lemma run4:
  assumes "240 \<le> b1" "b1 \<le> 244" "128 \<le> b2" "b2 \<le> 191" "128 \<le> b3" "b3 \<le> 191"
    "128 \<le> b4" "b4 \<le> 191"
    and "b1 = 240 \<Longrightarrow> 144 \<le> b2" and "b1 = 244 \<Longrightarrow> b2 \<le> 143"
  shows "utf8Run Idle (word_of_nat b1 # word_of_nat b2 # word_of_nat b3 # word_of_nat b4 # bs) =
           ((((b1 - 240) * 64 + (b2 - 128)) * 64 + (b3 - 128)) * 64 + (b4 - 128)) # utf8Run Idle bs"
proof -
  from assms have u: "unat (word_of_nat b1 :: byte) = b1" "unat (word_of_nat b2 :: byte) = b2"
    "unat (word_of_nat b3 :: byte) = b3" "unat (word_of_nat b4 :: byte) = b4"
    by (simp_all add: unat_byte)
  from assms show ?thesis
    by (simp add: u utf8Lead_def del: of_nat_add of_nat_mult)
qed

lemma base64_digits:
  fixes c :: nat
  shows "c = c div 64 * 64 + c mod 64"
    and "c div 64 = c div 4096 * 64 + c div 64 mod 64"
    and "c div 4096 = c div 262144 * 64 + c div 4096 mod 64"
proof -
  show "c = c div 64 * 64 + c mod 64" by simp
  have "c div 4096 = c div 64 div 64" by (simp add: div_mult2_eq)
  then show "c div 64 = c div 4096 * 64 + c div 64 mod 64" by simp
  have "c div 262144 = c div 4096 div 64" by (simp add: div_mult2_eq)
  then show "c div 4096 = c div 262144 * 64 + c div 4096 mod 64" by simp
qed

lemma encode2:
  assumes "128 \<le> c" "c < 2048"
  shows "utf8Run Idle (word_of_nat (192 + c div 64) # word_of_nat (128 + c mod 64) # bs) =
           c # utf8Run Idle bs"
proof -
  define q where "q = c div 64"
  define r where "r = c mod 64"
  have c: "c = q * 64 + r" and r: "r < 64"
    by (simp_all add: q_def r_def)
  from assms c r have q: "2 \<le> q" "q \<le> 31" by linarith+
  from c have val: "(192 + q - 192) * 64 + (128 + r - 128) = c" by simp
  from q r have "utf8Run Idle (word_of_nat (192 + q) # word_of_nat (128 + r) # bs) =
      ((192 + q - 192) * 64 + (128 + r - 128)) # utf8Run Idle bs"
    by (intro run2) simp_all
  then have "utf8Run Idle (word_of_nat (192 + q) # word_of_nat (128 + r) # bs) =
      c # utf8Run Idle bs"
    by (simp only: val)
  then show ?thesis
    unfolding q_def r_def .
qed

lemma encode3:
  assumes "2048 \<le> c" "c < 65536" "\<not> (55296 \<le> c \<and> c \<le> 57343)"
  shows "utf8Run Idle (word_of_nat (224 + c div 4096) # word_of_nat (128 + c div 64 mod 64) #
           word_of_nat (128 + c mod 64) # bs) = c # utf8Run Idle bs"
proof -
  define q where "q = c div 4096"
  define r1 where "r1 = c div 64 mod 64"
  define r0 where "r0 = c mod 64"
  have r: "r1 < 64" "r0 < 64"
    by (simp_all add: r1_def r0_def)
  have "c = c div 64 * 64 + r0" "c div 64 = q * 64 + r1"
    unfolding q_def r1_def r0_def by (rule base64_digits)+
  then have "c = (q * 64 + r1) * 64 + r0" by (simp only:)
  then have c: "c = q * 4096 + r1 * 64 + r0" by simp
  from assms(2) c r have q: "q \<le> 15" by linarith
  from assms(1) c r have lo: "32 \<le> r1" if "q = 0" using that by simp
  have hi: "r1 \<le> 31" if "q = 13"
  proof (rule ccontr)
    assume "\<not> r1 \<le> 31"
    with that c r have "55296 \<le> c" "c \<le> 57343" by linarith+
    with assms(3) show False by simp
  qed
  from c have val: "((224 + q - 224) * 64 + (128 + r1 - 128)) * 64 + (128 + r0 - 128) = c"
    by simp
  from q r lo hi have "utf8Run Idle (word_of_nat (224 + q) # word_of_nat (128 + r1) #
      word_of_nat (128 + r0) # bs) =
      (((224 + q - 224) * 64 + (128 + r1 - 128)) * 64 + (128 + r0 - 128)) # utf8Run Idle bs"
    by (intro run3) simp_all
  then have "utf8Run Idle (word_of_nat (224 + q) # word_of_nat (128 + r1) #
      word_of_nat (128 + r0) # bs) = c # utf8Run Idle bs"
    by (simp only: val)
  then show ?thesis
    unfolding q_def r1_def r0_def .
qed

lemma encode4:
  assumes "65536 \<le> c" "c < 1114112"
  shows "utf8Run Idle (word_of_nat (240 + c div 262144) # word_of_nat (128 + c div 4096 mod 64) #
           word_of_nat (128 + c div 64 mod 64) # word_of_nat (128 + c mod 64) # bs) =
         c # utf8Run Idle bs"
proof -
  define q where "q = c div 262144"
  define r2 where "r2 = c div 4096 mod 64"
  define r1 where "r1 = c div 64 mod 64"
  define r0 where "r0 = c mod 64"
  have r: "r2 < 64" "r1 < 64" "r0 < 64"
    by (simp_all add: r2_def r1_def r0_def)
  have "c = c div 64 * 64 + r0" "c div 64 = c div 4096 * 64 + r1" "c div 4096 = q * 64 + r2"
    unfolding q_def r2_def r1_def r0_def by (rule base64_digits)+
  then have "c = ((q * 64 + r2) * 64 + r1) * 64 + r0" by (simp only:)
  then have c: "c = q * 262144 + r2 * 4096 + r1 * 64 + r0" by simp
  from assms(2) c r have q: "q \<le> 4" by linarith
  from assms(1) c r have lo: "16 \<le> r2" if "q = 0" using that by simp
  from assms(2) c r have hi: "r2 \<le> 15" if "q = 4" using that by simp
  from c have val: "(((240 + q - 240) * 64 + (128 + r2 - 128)) * 64 + (128 + r1 - 128)) * 64 +
         (128 + r0 - 128) = c"
    by simp
  from q r lo hi have "utf8Run Idle (word_of_nat (240 + q) # word_of_nat (128 + r2) #
      word_of_nat (128 + r1) # word_of_nat (128 + r0) # bs) =
      ((((240 + q - 240) * 64 + (128 + r2 - 128)) * 64 + (128 + r1 - 128)) * 64 +
         (128 + r0 - 128)) # utf8Run Idle bs"
    by (intro run4) simp_all
  then have "utf8Run Idle (word_of_nat (240 + q) # word_of_nat (128 + r2) #
      word_of_nat (128 + r1) # word_of_nat (128 + r0) # bs) = c # utf8Run Idle bs"
    by (simp only: val)
  then show ?thesis
    unfolding q_def r2_def r1_def r0_def .
qed

lemma run_encodeCodePoint:
  assumes "scalar c"
  shows "utf8Run Idle (encodeCodePoint c @ bs) = c # utf8Run Idle bs"
proof -
  consider "c < 128" | "128 \<le> c" "c < 2048" | "2048 \<le> c" "c < 65536" | "65536 \<le> c"
    by linarith
  then show ?thesis
  proof cases
    case 1
    then have enc: "encodeCodePoint c = [word_of_nat c]"
      by (simp add: encodeCodePoint_def)
    show ?thesis
      unfolding enc using run1 [OF 1, of bs] by (simp only: append_Cons append_Nil)
  next
    case 2
    then have enc: "encodeCodePoint c = [word_of_nat (192 + c div 64), word_of_nat (128 + c mod 64)]"
      by (simp add: encodeCodePoint_def)
    show ?thesis
      unfolding enc using encode2 [OF 2, of bs] by (simp only: append_Cons append_Nil)
  next
    case 3
    then have enc: "encodeCodePoint c =
        [word_of_nat (224 + c div 4096), word_of_nat (128 + c div 64 mod 64),
         word_of_nat (128 + c mod 64)]"
      by (simp add: encodeCodePoint_def)
    from assms have ns: "\<not> (55296 \<le> c \<and> c \<le> 57343)" by (simp add: scalar_def)
    show ?thesis
      unfolding enc using encode3 [OF 3 ns, of bs] by (simp only: append_Cons append_Nil)
  next
    case 4
    then have enc: "encodeCodePoint c =
        [word_of_nat (240 + c div 262144), word_of_nat (128 + c div 4096 mod 64),
         word_of_nat (128 + c div 64 mod 64), word_of_nat (128 + c mod 64)]"
      by (simp add: encodeCodePoint_def)
    from assms have lt: "c < 1114112" by (simp add: scalar_def)
    show ?thesis
      unfolding enc using encode4 [OF 4 lt, of bs] by (simp only: append_Cons append_Nil)
  qed
qed

lemma unit_range: "unat (u :: 16 word) < 65536"
  using unsigned_less [of u, where 'a = nat] by simp

lemma scalar_unit: "\<not> isHighSurrogate u \<Longrightarrow> \<not> isLowSurrogate u \<Longrightarrow> scalar (unat u)"
  using unit_range [of u]
  unfolding scalar_def isHighSurrogate_def isLowSurrogate_def by linarith

lemma codeUnits_unit: "codeUnits (unat (u :: 16 word)) = [u]"
  using unit_range [of u] by (simp add: codeUnits_def)

lemma scalar_pair:
  assumes "isHighSurrogate u" "isLowSurrogate v"
  shows "scalar (65536 + (unat u - 55296) * 1024 + (unat v - 56320))"
proof -
  define x where "x = unat u - 55296"
  define y where "y = unat v - 56320"
  from assms have "x < 1024" "y < 1024"
    unfolding x_def y_def isHighSurrogate_def isLowSurrogate_def by linarith+
  then have "65536 + x * 1024 + y < 1114112" "\<not> 65536 + x * 1024 + y \<le> 57343"
    by linarith+
  then show ?thesis
    unfolding scalar_def x_def y_def by blast
qed

lemma codeUnits_pair:
  assumes "isHighSurrogate u" "isLowSurrogate v"
  shows "codeUnits (65536 + (unat u - 55296) * 1024 + (unat v - 56320)) = [u, v]"
proof -
  define x where "x = unat u - 55296"
  define y where "y = unat v - 56320"
  from assms have x: "x < 1024" and y: "y < 1024"
    and u: "55296 + x = unat u" and v: "56320 + y = unat v"
    unfolding x_def y_def isHighSurrogate_def isLowSurrogate_def by linarith+
  have big: "\<not> 65536 + x * 1024 + y < 65536" by simp
  have off: "65536 + x * 1024 + y - 65536 = x * 1024 + y" by simp
  from y have dm: "(x * 1024 + y) div 1024 = x" "(x * 1024 + y) mod 1024 = y"
    by simp_all
  have "codeUnits (65536 + x * 1024 + y) = [word_of_nat (unat u), word_of_nat (unat v)]"
    unfolding codeUnits_def by (simp only: big if_False off dm u v)
  then show ?thesis
    unfolding x_def y_def by simp
qed

lemma utf8Decode_append:
  "scalar c \<Longrightarrow> utf8Decode (encodeCodePoint c @ bs) = codeUnits c @ utf8Decode bs"
  by (simp add: utf8Decode_def run_encodeCodePoint)

lemma utf8Decode_single: "scalar c \<Longrightarrow> utf8Decode (encodeCodePoint c) = codeUnits c"
  using utf8Decode_append [of c "[]"] by (simp add: utf8Decode_def)

lemma utf8Decode_utf8Encode: "wellFormed s \<Longrightarrow> utf8Decode (utf8Encode s) = s"
proof (induction s rule: utf8Encode.induct)
  case 1
  show ?case by (simp add: utf8Decode_def)
next
  case (2 u)
  then have "\<not> isHighSurrogate u" "\<not> isLowSurrogate u" by simp_all
  then show ?case
    by (simp add: utf8Decode_single scalar_unit codeUnits_unit)
next
  case (3 u v rest)
  show ?case
  proof (cases "isHighSurrogate u")
    case True
    with "3.prems" have low: "isLowSurrogate v" and wf: "wellFormed rest" by simp_all
    from True low wf "3.IH"(1) have ih: "utf8Decode (utf8Encode rest) = rest" by simp
    from True low have "utf8Encode (u # v # rest) =
        encodeCodePoint (65536 + (unat u - 55296) * 1024 + (unat v - 56320)) @ utf8Encode rest"
      by simp
    then show ?thesis
      by (simp only: utf8Decode_append [OF scalar_pair [OF True low]]
          codeUnits_pair [OF True low] ih append_Cons append_Nil)
  next
    case False
    with "3.prems" have nlow: "\<not> isLowSurrogate u" and wf: "wellFormed (v # rest)" by simp_all
    from False nlow wf "3.IH"(3) have ih: "utf8Decode (utf8Encode (v # rest)) = v # rest"
      by simp
    from False nlow have "utf8Encode (u # v # rest) =
        encodeCodePoint (unat u) @ utf8Encode (v # rest)"
      by simp
    then show ?thesis
      by (simp only: utf8Decode_append [OF scalar_unit [OF False nlow]]
          codeUnits_unit ih append_Cons append_Nil)
  qed
qed

lemma lone_surrogate: "utf8Decode (utf8Encode [55296]) = [65533]"
proof -
  have "isHighSurrogate 55296" by (simp add: isHighSurrogate_def)
  then have "utf8Encode [55296] = encodeCodePoint 65533" by simp
  moreover have "scalar 65533" by (simp add: scalar_def)
  ultimately show ?thesis
    by (simp add: utf8Decode_single codeUnits_def)
qed

lemma utf8Encode_known_answer:
  "utf8Encode [55357, 56832, 65, 233, 8364] = [240, 159, 152, 128, 65, 195, 169, 226, 130, 172]"
  by (simp add: isHighSurrogate_def isLowSurrogate_def encodeCodePoint_def)

subsection \<open>Round trip\<close>

lemma decryptEncrypted_general:
  assumes "getEncryptionKey lib e = Inr key"
    and "gcmOpen lib key iv (snd (gcmSeal lib key iv (utf8Encode text)))
           (fst (gcmSeal lib key iv (utf8Encode text))) = Inr (utf8Encode text)"
  shows "decryptEncrypted lib e iv text = Inr (utf8Decode (utf8Encode text))"
proof -
  let ?sealed = "gcmSeal lib key iv (utf8Encode text)"
  from assms(1) have "encrypt lib e iv text =
      Inr (hexEncode iv @ js '':'' @ hexEncode (snd ?sealed) @ js '':'' @ hexEncode (fst ?sealed))"
    by (simp add: encrypt_def Let_def)
  then show ?thesis
    using assms by (simp add: decryptEncrypted_def decrypt_blob)
qed

lemma demo_gcm:
  "iv \<noteq> [] \<Longrightarrow>
     gcmOpen demoCrypto key iv (snd (gcmSeal demoCrypto key iv plain))
       (fst (gcmSeal demoCrypto key iv plain)) = Inr plain"
  by (simp add: demoCrypto_def comp_def)

text \<open>
  Claim C4 as stated fails on a string that holds a surrogate code unit without its
  partner: encoding replaces it by U+FFFD, which is what decryption returns.
\<close>

theorem decrypt_encrypt_lone_surrogate:
  "decryptEncrypted demoCrypto devEnv [1] [55296] = Inr [65533] \<and>
   Inr [65533] \<noteq> (Inr [55296] :: error + jsstring)"
proof -
  have "decryptEncrypted demoCrypto devEnv [1] [55296] = Inr (utf8Decode (utf8Encode [55296]))"
    by (rule decryptEncrypted_general [OF demo_dev_key demo_gcm]) simp
  then have "decryptEncrypted demoCrypto devEnv [1] [55296] = Inr [65533]"
    by (simp only: lone_surrogate)
  then show ?thesis by simp
qed

text \<open>
  Claim C4, amended. For every well-formed string (the empty string and strings with
  colons among them), with one environment in which key derivation succeeds in effect
  for both calls, and a cipher that opens what it has sealed, decrypting the encrypted
  string gives the string back.
\<close>

theorem decrypt_encrypt_roundtrip:
  assumes "wellFormed text"
    and "getEncryptionKey lib e = Inr key"
    and "gcmOpen lib key iv (snd (gcmSeal lib key iv (utf8Encode text)))
           (fst (gcmSeal lib key iv (utf8Encode text))) = Inr (utf8Encode text)"
  shows "decryptEncrypted lib e iv text = Inr text"
  using decryptEncrypted_general [OF assms(2,3)] assms(1)
  by (simp add: utf8Decode_utf8Encode)

lemma wf_demo: "wellFormed (js ''a:b'')" "wellFormed []"
  by (simp_all add: js_def isHighSurrogate_def isLowSurrogate_def)

text \<open>
  Claim C4, amended, on a string that contains the delimiter and on the empty string.
\<close>

theorem decrypt_encrypt_roundtrip_witness:
  "wellFormed (js ''a:b'') \<and>
   getEncryptionKey demoCrypto secretEnv = Inr [115, 51] \<and>
   gcmOpen demoCrypto [115, 51] [1, 2, 3]
     (snd (gcmSeal demoCrypto [115, 51] [1, 2, 3] (utf8Encode (js ''a:b''))))
     (fst (gcmSeal demoCrypto [115, 51] [1, 2, 3] (utf8Encode (js ''a:b'')))) =
       Inr (utf8Encode (js ''a:b'')) \<and>
   decryptEncrypted demoCrypto secretEnv [1, 2, 3] (js ''a:b'') = Inr (js ''a:b'') \<and>
   wellFormed [] \<and>
   decryptEncrypted demoCrypto secretEnv [1, 2, 3] [] = Inr []"
proof -
  have g: "gcmOpen demoCrypto [115, 51] [1, 2, 3]
     (snd (gcmSeal demoCrypto [115, 51] [1, 2, 3] (utf8Encode s)))
     (fst (gcmSeal demoCrypto [115, 51] [1, 2, 3] (utf8Encode s))) = Inr (utf8Encode s)" for s
    by (rule demo_gcm) simp
  from decrypt_encrypt_roundtrip [OF wf_demo(1) demo_secret_key g] decrypt_encrypt_roundtrip [OF wf_demo(2) demo_secret_key g]
    wf_demo demo_secret_key g [of "js ''a:b''"]
  show ?thesis by blast
qed

subsection \<open>Base58 and addresses\<close>

lemma digitsToNat_Nil [simp]: "digitsToNat b [] = 0"
  by (simp add: digitsToNat_def)

lemma digitsToNat_snoc [simp]: "digitsToNat b (ds @ [d]) = digitsToNat b ds * b + d"
  by (simp add: digitsToNat_def)

lemma digitsToNat_single [simp]: "digitsToNat b [d] = d"
  by (simp add: digitsToNat_def)

lemma digitsToNat_zeros: "digitsToNat b (replicate k 0 @ ds) = digitsToNat b ds"
proof -
  have "foldl (\<lambda>acc d. acc * b + d) 0 (replicate k 0) = 0"
    by (induction k) simp_all
  then show ?thesis by (simp add: digitsToNat_def)
qed

lemma natToDigits_zero [simp]: "natToDigits b 0 = []"
  by (simp add: natToDigits.simps)

lemma natToDigits_step:
  "2 \<le> b \<Longrightarrow> n \<noteq> 0 \<Longrightarrow> natToDigits b n = natToDigits b (n div b) @ [n mod b]"
  by (subst natToDigits.simps) simp

lemma natToDigits_eq_Nil: "2 \<le> b \<Longrightarrow> natToDigits b n = [] \<longleftrightarrow> n = 0"
  by (cases "n = 0") (simp_all add: natToDigits_step)

lemma digitsToNat_natToDigits: "2 \<le> b \<Longrightarrow> digitsToNat b (natToDigits b n) = n"
proof (induction b n rule: natToDigits.induct)
  case (1 b n)
  show ?case
  proof (cases "n = 0")
    case True
    then show ?thesis by simp
  next
    case False
    with 1 show ?thesis by (simp add: natToDigits_step)
  qed
qed

lemma natToDigits_less: "2 \<le> b \<Longrightarrow> d \<in> set (natToDigits b n) \<Longrightarrow> d < b"
proof (induction b n rule: natToDigits.induct)
  case (1 b n)
  show ?case
  proof (cases "n = 0")
    case True
    with 1 show ?thesis by simp
  next
    case False
    with 1 show ?thesis by (auto simp: natToDigits_step)
  qed
qed

lemma natToDigits_hd: "2 \<le> b \<Longrightarrow> natToDigits b n \<noteq> [] \<Longrightarrow> hd (natToDigits b n) \<noteq> 0"
proof (induction b n rule: natToDigits.induct)
  case (1 b n)
  from "1.prems" have n: "n \<noteq> 0" by (simp add: natToDigits_eq_Nil)
  show ?case
  proof (cases "n div b = 0")
    case True
    with n "1.prems" have "n mod b = n" by (simp add: div_eq_0_iff)
    with True n "1.prems" show ?thesis by (simp add: natToDigits_step)
  next
    case False
    with "1.prems" have "natToDigits b (n div b) \<noteq> []" by (simp add: natToDigits_eq_Nil)
    with 1 n show ?thesis by (simp add: natToDigits_step)
  qed
qed

lemma natToDigits_digitsToNat:
  "2 \<le> b \<Longrightarrow> \<forall>d \<in> set ds. d < b \<Longrightarrow> ds = [] \<or> hd ds \<noteq> 0 \<Longrightarrow>
     natToDigits b (digitsToNat b ds) = ds"
proof (induction ds rule: rev_induct)
  case Nil
  show ?case by simp
next
  case (snoc d ds)
  from snoc.prems have d: "d < b" by simp
  show ?case
  proof (cases "ds = []")
    case True
    with snoc.prems d show ?thesis by (simp add: natToDigits_step)
  next
    case False
    with snoc.prems have "hd ds \<noteq> 0" by simp
    with snoc False have ih: "natToDigits b (digitsToNat b ds) = ds" by simp
    with False snoc.prems(1) have "digitsToNat b ds \<noteq> 0"
      by (metis natToDigits_zero)
    with snoc.prems(1) d ih show ?thesis by (simp add: natToDigits_step)
  qed
qed

lemma split_zeros:
  "xs = replicate (length (takeWhile (\<lambda>x. x = z) xs)) z @ dropWhile (\<lambda>x. x = z) xs"
  by (induction xs) simp_all

lemma takeWhile_hd: "ys = [] \<or> hd ys \<noteq> z \<Longrightarrow> takeWhile (\<lambda>x. x = z) ys = []"
  by (cases ys) auto

lemma takeWhile_zeros:
  "ys = [] \<or> hd ys \<noteq> z \<Longrightarrow> takeWhile (\<lambda>x. x = z) (replicate k z @ ys) = replicate k z"
  by (induction k) (simp_all add: takeWhile_hd)

lemma indexOf_nth: "distinct xs \<Longrightarrow> i < length xs \<Longrightarrow> indexOf (xs ! i) xs = Some i"
proof (induction xs arbitrary: i)
  case Nil
  then show ?case by simp
next
  case (Cons x xs)
  then show ?case by (cases i) (auto simp: nth_mem)
qed

lemma those_map_Some: "\<forall>x \<in> set xs. f x = Some (g x) \<Longrightarrow> those (map f xs) = Some (map g xs)"
  by (induction xs) simp_all

lemma b58_alpha: "b58Alphabet = [49, 50, 51, 52, 53, 54, 55, 56, 57, 65, 66, 67, 68, 69, 70, 71, 72, 74, 75, 76, 77, 78, 80, 81, 82, 83, 84, 85, 86, 87, 88, 89, 90, 97, 98, 99, 100, 101, 102, 103, 104, 105, 106, 107, 109, 110, 111, 112, 113, 114, 115, 116, 117, 118, 119, 120, 121, 122]"
  by (simp add: b58Alphabet_def js_def)

lemma b58_distinct: "distinct b58Alphabet" and b58_length: "length b58Alphabet = 58"
  by (simp_all add: b58_alpha)

lemma bs58Decode_bs58Encode: "bs58Decode (bs58Encode bs) = Some bs"
proof -
  define z where "z = length (takeWhile (\<lambda>b. b = 0) bs)"
  define rest where "rest = dropWhile (\<lambda>b. b = 0) bs"
  define N where "N = digitsToNat 256 (map unat bs)"
  define ds where "ds = natToDigits 58 N"
  have bs: "bs = replicate z 0 @ rest"
    unfolding z_def rest_def by (rule split_zeros)
  have rest_hd: "rest = [] \<or> hd rest \<noteq> 0"
    unfolding rest_def using hd_dropWhile [of "\<lambda>b. b = 0" bs] by blast
  have "map unat bs = replicate z 0 @ map unat rest"
    by (subst bs) simp
  then have N: "N = digitsToNat 256 (map unat rest)"
    by (simp add: N_def digitsToNat_zeros)
  have ds_lt: "\<forall>d \<in> set ds. d < 58"
    unfolding ds_def by (auto intro: natToDigits_less)
  have ds_hd: "ds = [] \<or> hd ds \<noteq> 0"
    unfolding ds_def using natToDigits_hd [of 58 N] by (cases "natToDigits 58 N = []") simp_all
  have enc: "bs58Encode bs = map (\<lambda>d. b58Alphabet ! d) (replicate z 0 @ ds)"
    by (simp add: bs58Encode_def z_def ds_def N_def)
  have "\<forall>d \<in> set (replicate z 0 @ ds). indexOf (b58Alphabet ! d) b58Alphabet = Some d"
    using ds_lt by (auto simp: indexOf_nth b58_distinct b58_length)
  then have idx: "those (map (\<lambda>c. indexOf c b58Alphabet) (bs58Encode bs)) = Some (replicate z 0 @ ds)"
    unfolding enc map_map comp_def
    using those_map_Some [of "replicate z 0 @ ds" "\<lambda>d. indexOf (b58Alphabet ! d) b58Alphabet" "\<lambda>d. d"]
    by simp
  have zeros: "length (takeWhile (\<lambda>d. d = 0) (replicate z 0 @ ds)) = z"
    using ds_hd by (simp add: takeWhile_zeros)
  have val: "digitsToNat 58 (replicate z 0 @ ds) = N"
    by (simp add: digitsToNat_zeros ds_def digitsToNat_natToDigits)
  have "\<forall>d \<in> set (map unat rest). d < 256"
    using unsigned_less [where 'a = nat and 'b = 8] by auto
  moreover have "map unat rest = [] \<or> hd (map unat rest) \<noteq> 0"
    using rest_hd by (cases rest) (simp_all add: unsigned_eq_0_iff)
  ultimately have "natToDigits 256 N = map unat rest"
    unfolding N by (intro natToDigits_digitsToNat) simp_all
  then have bytes: "map word_of_nat (natToDigits 256 N) = rest"
    by (simp add: comp_def)
  show ?thesis
    unfolding bs58Decode_def idx option.case zeros val bytes
    using bs by simp
qed

text \<open>
  Claim C9. \<open>isValidSolanaAddress\<close> answers true exactly for the strings that decode as
  base58 to 32 bytes; it answers false where decoding fails, and where it gives 31 or
  33 bytes; and it answers true for the public address of every generated key pair,
  whose public key has 32 bytes. Being a total function, it never raises.
\<close>

theorem isValidSolanaAddress_iff:
  "(isValidSolanaAddress a \<longleftrightarrow> (\<exists>bs. bs58Decode a = Some bs \<and> length bs = 32)) \<and>
   (bs58Decode a = None \<longrightarrow> \<not> isValidSolanaAddress a) \<and>
   (\<forall>bs. bs58Decode a = Some bs \<and> (length bs = 31 \<or> length bs = 33) \<longrightarrow>
      \<not> isValidSolanaAddress a) \<and>
   (length (kp_publicKey kp) = 32 \<longrightarrow> isValidSolanaAddress (publicKey (generateWalletKeypair kp)))"
  by (auto simp: isValidSolanaAddress_def generateWalletKeypair_def bs58Decode_bs58Encode
      split: option.splits)

lemma bs58Encode_known_answer:
  "bs58Encode [72, 101, 108, 108, 111, 32, 87, 111, 114, 108, 100, 33] = js ''2NEpo7TZRRrLZSi2U''"
  by (simp add: bs58Encode_def digitsToNat_def natToDigits.simps b58_alpha js_def)

lemma decode_32_ones: "bs58Decode (js ''11111111111111111111111111111111'') = Some (replicate 32 0)"
  by code_simp
lemma decode_31_ones: "bs58Decode (js ''1111111111111111111111111111111'') = Some (replicate 31 0)"
  by code_simp
lemma decode_not_base58: "bs58Decode (js ''0OIl'') = None"
  by code_simp
lemma demoKeypair_length: "length (kp_publicKey demoKeypair) = 32"
  by (simp add: demoKeypair_def)
lemma demoKeypair_address: "publicKey (generateWalletKeypair demoKeypair) = js ''4wBqpZM9xaSheZzJSMawUKKwhdpChKbZ5eu5ky4Vigw''"
  by (simp add: generateWalletKeypair_def demoKeypair_def bs58Encode_def digitsToNat_def natToDigits.simps b58_alpha js_def)

text \<open>
  Claim C9 on the address of 32 zero bytes, on a string that decodes to 31 bytes, on a
  string outside the alphabet and on the key pair with public key bytes 1 to 32.
\<close>

theorem isValidSolanaAddress_iff_witness:
  "bs58Decode (js ''11111111111111111111111111111111'') = Some (replicate 32 0) \<and>
   length (replicate 32 (0 :: byte)) = 32 \<and>
   isValidSolanaAddress (js ''11111111111111111111111111111111'') \<and>
   bs58Decode (js ''1111111111111111111111111111111'') = Some (replicate 31 0) \<and>
   length (replicate 31 (0 :: byte)) = 31 \<and>
   \<not> isValidSolanaAddress (js ''1111111111111111111111111111111'') \<and>
   bs58Decode (js ''0OIl'') = None \<and>
   \<not> isValidSolanaAddress (js ''0OIl'') \<and>
   length (kp_publicKey demoKeypair) = 32 \<and>
   isValidSolanaAddress (publicKey (generateWalletKeypair demoKeypair))"
proof -
  have l: "length (replicate 32 (0 :: byte)) = 32" "length (replicate 31 (0 :: byte)) = 31"
    by simp_all
  from decode_32_ones decode_31_ones decode_not_base58 demoKeypair_length l
    isValidSolanaAddress_iff [of "js ''11111111111111111111111111111111''" demoKeypair]
    isValidSolanaAddress_iff [of "js ''1111111111111111111111111111111''" demoKeypair]
    isValidSolanaAddress_iff [of "js ''0OIl''" demoKeypair]
  show ?thesis by blast
qed

end
